theory Spec2Isabelle
  imports Complex_Main
begin

section \<open>Sozi camera: CameraState and Camera\<close>

text \<open>
  The development embeds \<^verbatim>\<open>src/js/sozi.player.Camera.js\<close>. The file
  \<^verbatim>\<open>src/unnamed/part_000\<close> holds the same two objects in the namespace
  \<^verbatim>\<open>sozi.display\<close>. There \<^verbatim>\<open>setAngle\<close>, \<^verbatim>\<open>setAtState\<close>, \<^verbatim>\<open>clone\<close>, \<^verbatim>\<open>interpolate\<close>,
  \<^verbatim>\<open>scale\<close>, \<^verbatim>\<open>rotate\<close>, \<^verbatim>\<open>zoom\<close> and \<^verbatim>\<open>drag\<close> are the same statement by statement, up to
  renaming (\<^verbatim>\<open>linear\<close> is \<^verbatim>\<open>inter\<close> there, \<^verbatim>\<open>quadratic\<close> is \<^verbatim>\<open>parabola\<close>, \<^verbatim>\<open>viewport\<close> is
  \<^verbatim>\<open>viewPort\<close>); \<^verbatim>\<open>init\<close> reads the bounding box kept by the viewport,
  \<^verbatim>\<open>setAtElement\<close> reads the geometry of a rectangle from its attributes, and \<^verbatim>\<open>update\<close>
  writes the transform to one group, with the same numbers.

  Names. The local function \<^verbatim>\<open>linear\<close> of \<^verbatim>\<open>interpolate\<close> is \<open>linear_js\<close> below and
  \<^verbatim>\<open>rotate\<close> is \<open>rotate_camera\<close>, since \<open>linear\<close> and \<open>rotate\<close> are constants of the library;
  \<^verbatim>\<open>Camera.init\<close> and \<^verbatim>\<open>Camera.setAtState\<close>, which override those of \<^verbatim>\<open>CameraState\<close>, are
  \<open>Camera_init\<close> and \<open>Camera_setAtState\<close>. The operators and functions of JavaScript on
  numbers carry the prefix \<open>j\<close>: \<open>jadd\<close>, \<open>jsub\<close>, \<open>jmul\<close>, \<open>jdiv\<close>, \<open>jrem\<close> (the operator
  \<^verbatim>\<open>%\<close>), \<open>jneg\<close>, \<open>jsqrt\<close>, \<open>jmin\<close>, \<open>jmax\<close>, \<open>jlt\<close>, \<open>jgt\<close>, \<open>jeq\<close>. \<open>Camera\<close> extends the
  record \<open>CameraState\<close>, as the object \<^verbatim>\<open>Camera\<close> is created from \<^verbatim>\<open>CameraState\<close>, so the
  functions of \<open>CameraState\<close> apply to a camera. The receiver \<^verbatim>\<open>this\<close> of a method is the last
  argument of its model, and the model returns the receiver as the method leaves it.
  Every function of the model is total: whatever the numbers are, the method runs to its
  end and writes the fields it writes.

  Numbers. A JavaScript number is an IEEE 754 double. The type \<open>number\<close> has the finite
  doubles, the two infinities and NaN. A finite double is a real of the form \<open>m * 2 ^ e\<close>
  with \<open>\<bar>m\<bar> < 2 ^ 53\<close> and \<open>- 1074 \<le> e \<le> 971\<close>, so the subnormal numbers are there. An
  arithmetic operation on finite numbers rounds its exact result to the nearest double,
  ties to the even significand (\<open>rnd\<close>), and gives an infinity when the rounded result
  reaches \<open>2 ^ 1024\<close>; on infinities and NaN the operations follow the standard. The one
  simplification: the two zeros are one value, so a division of a non-zero number by zero
  has the sign of the dividend. No property below turns on the sign of a zero.
\<close>

subsection \<open>JavaScript numbers\<close>

definition is_double :: "real \<Rightarrow> bool" where
  "is_double x \<longleftrightarrow>
     (\<exists>m e :: int. \<bar>m\<bar> < 2 ^ 53 \<and> - 1074 \<le> e \<and> e \<le> 971 \<and> x = of_int m * 2 powi e)"

text \<open>The finite doubles, as a subtype of the reals: \<open>val\<close> reads the real, \<open>dbl\<close> makes the
  double of a real that is one.\<close>

typedef double = "{x. is_double x}"
  morphisms val dbl
proof
  show "0 \<in> {x. is_double x}"
    unfolding is_double_def mem_Collect_eq by (intro exI [of _ 0]) simp
qed

datatype number = Fin double | PInf | NInf | NaN

text \<open>Rounding. \<open>expo x\<close> is the exponent of the unit in the last place of the doubles around
  \<open>x\<close>; \<open>round_even\<close> rounds to the nearest integer, a tie to the even one; \<open>rnd_fin x\<close> is
  the nearest multiple of \<open>2 powi expo x\<close>, and \<open>rnd x\<close> the number an operation with the exact
  result \<open>x\<close> returns.\<close>

definition expo :: "real \<Rightarrow> int" where
  "expo x = max (\<lfloor>log 2 \<bar>x\<bar>\<rfloor> - 52) (- 1074)"

definition round_even :: "real \<Rightarrow> int" where
  "round_even q =
     (let f = \<lfloor>q\<rfloor>; d = q - of_int f
      in if d < 1 / 2 then f else if 1 / 2 < d then f + 1 else if even f then f else f + 1)"

definition rnd_fin :: "real \<Rightarrow> real" where
  "rnd_fin x = (if x = 0 then 0 else of_int (round_even (x / 2 powi expo x)) * 2 powi expo x)"

definition rnd :: "real \<Rightarrow> number" where
  "rnd x =
     (let y = rnd_fin x
      in if 2 ^ 1024 \<le> \<bar>y\<bar> then (if 0 < y then PInf else NInf) else Fin (dbl y))"

text \<open>\<open>D x\<close> is the number whose value is the real \<open>x\<close>, for an \<open>x\<close> that is a double: a
  literal such as \<^verbatim>\<open>180\<close> of the source is \<open>D 180\<close>.\<close>

abbreviation D :: "real \<Rightarrow> number" where
  "D x \<equiv> Fin (dbl x)"

text \<open>The operators. \<^verbatim>\<open>a % b\<close> is the remainder of the division truncated towards zero:
  it has the sign of the dividend.\<close>

definition trunc :: "real \<Rightarrow> int" where
  "trunc a = (if 0 \<le> a then \<lfloor>a\<rfloor> else \<lceil>a\<rceil>)"

fun jneg :: "number \<Rightarrow> number" where
  "jneg (Fin a) = rnd (- val a)"
| "jneg PInf = NInf"
| "jneg NInf = PInf"
| "jneg NaN = NaN"

fun jadd :: "number \<Rightarrow> number \<Rightarrow> number" where
  "jadd (Fin a) (Fin b) = rnd (val a + val b)"
| "jadd NaN _ = NaN"
| "jadd _ NaN = NaN"
| "jadd PInf NInf = NaN"
| "jadd NInf PInf = NaN"
| "jadd PInf _ = PInf"
| "jadd _ PInf = PInf"
| "jadd NInf _ = NInf"
| "jadd _ NInf = NInf"

definition jsub :: "number \<Rightarrow> number \<Rightarrow> number" where
  "jsub a b = jadd a (jneg b)"

definition signed_inf :: "bool \<Rightarrow> number" where
  "signed_inf positive = (if positive then PInf else NInf)"

fun jmul :: "number \<Rightarrow> number \<Rightarrow> number" where
  "jmul (Fin a) (Fin b) = rnd (val a * val b)"
| "jmul NaN _ = NaN"
| "jmul _ NaN = NaN"
| "jmul (Fin a) PInf = (if val a = 0 then NaN else signed_inf (0 < val a))"
| "jmul (Fin a) NInf = (if val a = 0 then NaN else signed_inf (val a < 0))"
| "jmul PInf (Fin b) = (if val b = 0 then NaN else signed_inf (0 < val b))"
| "jmul NInf (Fin b) = (if val b = 0 then NaN else signed_inf (val b < 0))"
| "jmul PInf PInf = PInf"
| "jmul NInf NInf = PInf"
| "jmul PInf NInf = NInf"
| "jmul NInf PInf = NInf"

fun jdiv :: "number \<Rightarrow> number \<Rightarrow> number" where
  "jdiv (Fin a) (Fin b) =
     (if val b = 0 then (if val a = 0 then NaN else signed_inf (0 < val a))
      else rnd (val a / val b))"
| "jdiv NaN _ = NaN"
| "jdiv _ NaN = NaN"
| "jdiv (Fin a) _ = D 0"
| "jdiv PInf (Fin b) = signed_inf (0 \<le> val b)"
| "jdiv NInf (Fin b) = signed_inf (val b < 0)"
| "jdiv _ _ = NaN"

fun jsqrt :: "number \<Rightarrow> number" where
  "jsqrt (Fin a) = (if val a < 0 then NaN else rnd (sqrt (val a)))"
| "jsqrt PInf = PInf"
| "jsqrt _ = NaN"

fun jrem :: "number \<Rightarrow> number \<Rightarrow> number" where
  "jrem (Fin a) (Fin b) =
     (if val b = 0 then NaN else rnd (val a - val b * of_int (trunc (val a / val b))))"
| "jrem NaN _ = NaN"
| "jrem _ NaN = NaN"
| "jrem (Fin a) _ = Fin a"
| "jrem _ _ = NaN"

text \<open>Comparisons are false when an operand is NaN; \<^verbatim>\<open>Math.min\<close> and \<^verbatim>\<open>Math.max\<close> return NaN
  when an argument is NaN; \<open>truthy\<close> is the test of \<^verbatim>\<open>if (relativeZoom)\<close>: a number is false
  when it is zero or NaN.\<close>

fun jlt :: "number \<Rightarrow> number \<Rightarrow> bool" where
  "jlt (Fin a) (Fin b) \<longleftrightarrow> val a < val b"
| "jlt NaN _ \<longleftrightarrow> False"
| "jlt _ NaN \<longleftrightarrow> False"
| "jlt _ NInf \<longleftrightarrow> False"
| "jlt PInf _ \<longleftrightarrow> False"
| "jlt _ _ \<longleftrightarrow> True"

definition jgt :: "number \<Rightarrow> number \<Rightarrow> bool" where
  "jgt a b \<longleftrightarrow> jlt b a"

definition jeq :: "number \<Rightarrow> number \<Rightarrow> bool" where
  "jeq a b \<longleftrightarrow> a \<noteq> NaN \<and> a = b"

definition jmax :: "number \<Rightarrow> number \<Rightarrow> number" where
  "jmax a b = (if a = NaN \<or> b = NaN then NaN else if jlt a b then b else a)"

definition jmin :: "number \<Rightarrow> number \<Rightarrow> number" where
  "jmin a b = (if a = NaN \<or> b = NaN then NaN else if jlt b a then b else a)"

definition truthy :: "number \<Rightarrow> bool" where
  "truthy a \<longleftrightarrow> a \<noteq> NaN \<and> a \<noteq> D 0"

text \<open>\<^verbatim>\<open>Math.PI\<close> is the double nearest to \<open>\<pi>\<close>. \<^verbatim>\<open>Math.sin\<close>, \<^verbatim>\<open>Math.cos\<close> and \<^verbatim>\<open>Math.atan2\<close>
  are approximations whose last bits depend on the engine: the model takes them as
  parameters, \<open>Runtime\<close> for sine and cosine (used by \<^verbatim>\<open>drag\<close>) and an argument of
  \<open>setAtElement\<close> for \<^verbatim>\<open>Math.atan2\<close>. The sine and the cosine of an infinity or of
  NaN are NaN.
  \<open>example_runtime\<close>, with the correctly rounded sine and cosine, is the engine of the
  examples.\<close>

definition Math_PI :: number where
  "Math_PI = D (884279719003555 / 2 ^ 48)"

record Runtime =
  Math_sin :: "double \<Rightarrow> double"
  Math_cos :: "double \<Rightarrow> double"

definition example_runtime :: Runtime where
  "example_runtime =
     \<lparr>Math_sin = (\<lambda>d. dbl (rnd_fin (sin (val d)))),
      Math_cos = (\<lambda>d. dbl (rnd_fin (cos (val d))))\<rparr>"

definition js_sin :: "Runtime \<Rightarrow> number \<Rightarrow> number" where
  "js_sin rt a = (case a of Fin d \<Rightarrow> Fin (Math_sin rt d) | _ \<Rightarrow> NaN)"

definition js_cos :: "Runtime \<Rightarrow> number \<Rightarrow> number" where
  "js_cos rt a = (case a of Fin d \<Rightarrow> Fin (Math_cos rt d) | _ \<Rightarrow> NaN)"

subsection \<open>Data\<close>

record CameraState =
  cx :: number
  cy :: number
  width :: number
  height :: number
  angle :: number
  clipped :: bool

text \<open>What the DOM hands over: a bounding box, a transformation matrix, a point, a path
  (its length and its point at a length), an element.\<close>

record BBox =
  bbox_x :: number
  bbox_y :: number
  bbox_width :: number
  bbox_height :: number

record SVGMatrix =
  m_a :: number
  m_b :: number
  m_c :: number
  m_d :: number
  m_e :: number
  m_f :: number

record SVGPoint =
  pt_x :: number
  pt_y :: number

record SVGPath =
  getTotalLength :: number
  getPointAtLength :: "number \<Rightarrow> SVGPoint"

record SVGElement =
  getBBox :: BBox
  getCTM :: SVGMatrix

definition matrixTransform :: "SVGPoint \<Rightarrow> SVGMatrix \<Rightarrow> SVGPoint" where
  "matrixTransform p m =
     \<lparr>pt_x = jadd (jadd (jmul (m_a m) (pt_x p)) (jmul (m_c m) (pt_y p))) (m_e m),
      pt_y = jadd (jadd (jmul (m_b m) (pt_x p)) (jmul (m_d m) (pt_y p))) (m_f m)\<rparr>"

subsection \<open>CameraState\<close>

text \<open>\<^verbatim>\<open>init\<close> reads of \<^verbatim>\<open>svgRoot\<close> its bounding box, \<^verbatim>\<open>svgRoot.getBBox()\<close>: the box is the
  argument of \<open>init\<close>, and of \<open>clone\<close>, which makes its new state with \<^verbatim>\<open>init(this.svgRoot)\<close>.
  \<^verbatim>\<open>matrixTransform\<close> is the DOM's: the point \<open>(a x + c y + e, b x + d y + f)\<close>.\<close>

definition init :: "BBox \<Rightarrow> CameraState" where
  "init initialBBox =
     \<lparr>cx = jadd (bbox_x initialBBox) (jdiv (bbox_width initialBBox) (D 2)),
      cy = jadd (bbox_y initialBBox) (jdiv (bbox_height initialBBox) (D 2)),
      width = bbox_width initialBBox,
      height = bbox_height initialBBox,
      angle = D 0,
      clipped = False\<rparr>"

definition setAngle :: "number \<Rightarrow> 'a CameraState_scheme \<Rightarrow> 'a CameraState_scheme" where
  "setAngle a this = this\<lparr>angle := jsub (jrem (jadd a (D 180)) (D 360)) (D 180)\<rparr>"

definition setAtElement ::
  "(number \<Rightarrow> number \<Rightarrow> number) \<Rightarrow> SVGElement
     \<Rightarrow> 'a CameraState_scheme \<Rightarrow> 'a CameraState_scheme" where
  "setAtElement Math_atan2 svgElement this =
     (let b = getBBox svgElement;
          c = \<lparr>pt_x = jadd (bbox_x b) (jdiv (bbox_width b) (D 2)),
               pt_y = jadd (bbox_y b) (jdiv (bbox_height b) (D 2))\<rparr>;
          matrix = getCTM svgElement;
          c = matrixTransform c matrix;
          scale = jsqrt (jadd (jmul (m_a matrix) (m_a matrix)) (jmul (m_b matrix) (m_b matrix)))
      in this\<lparr>cx := pt_x c,
              cy := pt_y c,
              width := jmul (bbox_width b) scale,
              height := jmul (bbox_height b) scale,
              angle := jdiv (jmul (Math_atan2 (m_b matrix) (m_a matrix)) (D 180)) Math_PI\<rparr>)"

definition setAtState :: "'b CameraState_scheme \<Rightarrow> 'a CameraState_scheme \<Rightarrow> 'a CameraState_scheme" where
  "setAtState state this =
     this\<lparr>cx := cx state,
          cy := cy state,
          width := width state,
          height := height state,
          angle := angle state,
          clipped := clipped state\<rparr>"

definition clone :: "BBox \<Rightarrow> 'a CameraState_scheme \<Rightarrow> CameraState" where
  "clone rootBBox this = setAtState this (init rootBBox)"

text \<open>\<^verbatim>\<open>interpolate\<close>. Its local functions \<^verbatim>\<open>linear\<close> and \<^verbatim>\<open>quadratic\<close> read the variables
  \<^verbatim>\<open>progress\<close>, \<^verbatim>\<open>remaining\<close> and \<^verbatim>\<open>relativeZoom\<close> of the call: they are arguments here. The
  locals \<^verbatim>\<open>um\<close>, \<^verbatim>\<open>tm\<close> and \<^verbatim>\<open>k\<close> of \<^verbatim>\<open>quadratic\<close> are functions of their own, so that the
  properties can name them.\<close>

definition linear_js :: "number \<Rightarrow> number \<Rightarrow> number \<Rightarrow> number" where
  "linear_js progress initial final =
     (let remaining = jsub (D 1) progress
      in jadd (jmul final progress) (jmul initial remaining))"

definition quadratic_um :: "number \<Rightarrow> number \<Rightarrow> number \<Rightarrow> number" where
  "quadratic_um relativeZoom u0 u1 =
     (if jgt relativeZoom (D 0)
      then jmul (jmax u0 u1) (jadd (D 1) relativeZoom)
      else jmul (jmin u0 u1) (jsub (D 1) relativeZoom))"

definition quadratic_tm :: "number \<Rightarrow> number \<Rightarrow> number \<Rightarrow> number" where
  "quadratic_tm relativeZoom u0 u1 =
     (let um = quadratic_um relativeZoom u0 u1;
          du0 = jsub u0 um;
          du1 = jsub u1 um;
          r = jsqrt (jdiv du0 du1)
      in jdiv r (jadd (D 1) r))"

definition quadratic_k :: "number \<Rightarrow> number \<Rightarrow> number \<Rightarrow> number" where
  "quadratic_k relativeZoom u0 u1 =
     (let um = quadratic_um relativeZoom u0 u1;
          du0 = jsub u0 um;
          tm = quadratic_tm relativeZoom u0 u1
      in jdiv (jdiv du0 tm) tm)"

definition quadratic :: "number \<Rightarrow> number \<Rightarrow> number \<Rightarrow> number \<Rightarrow> number" where
  "quadratic progress relativeZoom u0 u1 =
     (let um = quadratic_um relativeZoom u0 u1;
          tm = quadratic_tm relativeZoom u0 u1;
          k = quadratic_k relativeZoom u0 u1;
          dt = jsub progress tm
      in jadd (jmul (jmul k dt) dt) um)"

definition interpolate ::
  "CameraState \<Rightarrow> CameraState \<Rightarrow> number \<Rightarrow> number \<Rightarrow> SVGPath option \<Rightarrow> bool
     \<Rightarrow> 'a CameraState_scheme \<Rightarrow> 'a CameraState_scheme" where
  "interpolate initialState finalState progress relativeZoom svgPath reversePath this =
     (let remaining = jsub (D 1) progress;
          this =
            (if truthy relativeZoom
             then this\<lparr>width := quadratic progress relativeZoom (width initialState) (width finalState),
                       height := quadratic progress relativeZoom (height initialState) (height finalState)\<rparr>
             else this\<lparr>width := linear_js progress (width initialState) (width finalState),
                       height := linear_js progress (height initialState) (height finalState)\<rparr>);
          this =
            (case svgPath of
               Some path \<Rightarrow>
                 (let pathLength = getTotalLength path;
                      startPoint = getPointAtLength path (if reversePath then pathLength else D 0);
                      endPoint = getPointAtLength path (if reversePath then D 0 else pathLength);
                      currentPoint = getPointAtLength path
                                       (jmul pathLength (if reversePath then remaining else progress))
                  in this\<lparr>cx := jadd (pt_x currentPoint)
                                    (linear_js progress (jsub (cx initialState) (pt_x startPoint))
                                                        (jsub (cx finalState) (pt_x endPoint))),
                          cy := jadd (pt_y currentPoint)
                                    (linear_js progress (jsub (cy initialState) (pt_y startPoint))
                                                        (jsub (cy finalState) (pt_y endPoint)))\<rparr>)
             | None \<Rightarrow>
                 this\<lparr>cx := linear_js progress (cx initialState) (cx finalState),
                      cy := linear_js progress (cy initialState) (cy finalState)\<rparr>)
      in if jgt (jsub (angle finalState) (angle initialState)) (D 180)
         then this\<lparr>angle := linear_js progress (angle initialState)
                                          (jsub (angle finalState) (D 360))\<rparr>
         else if jlt (jsub (angle finalState) (angle initialState)) (D (- 180))
         then this\<lparr>angle := linear_js progress (jsub (angle initialState) (D 360))
                                               (angle finalState)\<rparr>
         else this\<lparr>angle := linear_js progress (angle initialState) (angle finalState)\<rparr>)"

subsection \<open>Camera\<close>

text \<open>
  Of the viewport a camera reads \<^verbatim>\<open>width\<close> and \<^verbatim>\<open>height\<close>. \<^verbatim>\<open>update\<close> sets four attributes of
  the clipping rectangle and the attribute \<^verbatim>\<open>transform\<close> of every group, the same text for
  each: the model keeps the numbers written, in \<open>svgClipRect\<close> and \<open>svgTransform\<close>, which
  are \<open>None\<close> until \<^verbatim>\<open>update\<close> has run.
\<close>

record Viewport =
  vp_width :: number
  vp_height :: number

record ClipRect =
  rect_x :: number
  rect_y :: number
  rect_width :: number
  rect_height :: number

record Transform =
  tr_scale :: number
  tr_translateX :: number
  tr_translateY :: number
  tr_rotate :: number
  tr_rotateCx :: number
  tr_rotateCy :: number

record Camera = CameraState +
  viewport :: Viewport
  svgClipRect :: "ClipRect option"
  svgTransform :: "Transform option"

definition Camera_init :: "Viewport \<Rightarrow> BBox \<Rightarrow> Camera" where
  "Camera_init vp rootBBox =
     CameraState.extend (init rootBBox) (Camera.fields vp None None)"

definition scale :: "Camera \<Rightarrow> number" where
  "scale this =
     jmin (jdiv (vp_width (viewport this)) (width this))
          (jdiv (vp_height (viewport this)) (height this))"

definition update :: "Camera \<Rightarrow> Camera" where
  "update this =
     (let scale = scale this;
          width' = jmul (width this) scale;
          height' = jmul (height this) scale;
          x = jdiv (jsub (vp_width (viewport this)) width') (D 2);
          y = jdiv (jsub (vp_height (viewport this)) height') (D 2);
          rect = \<lparr>rect_x = (if clipped this then x else D 0),
                  rect_y = (if clipped this then y else D 0),
                  rect_width = (if clipped this then width' else vp_width (viewport this)),
                  rect_height = (if clipped this then height' else vp_height (viewport this))\<rparr>;
          translateX = jadd (jadd (jneg (cx this)) (jdiv (width this) (D 2))) (jdiv x scale);
          translateY = jadd (jadd (jneg (cy this)) (jdiv (height this) (D 2))) (jdiv y scale)
      in this\<lparr>svgClipRect := Some rect,
              svgTransform := Some \<lparr>tr_scale = scale,
                                    tr_translateX = translateX,
                                    tr_translateY = translateY,
                                    tr_rotate = jneg (angle this),
                                    tr_rotateCx = cx this,
                                    tr_rotateCy = cy this\<rparr>\<rparr>)"

definition Camera_setAtState :: "'b CameraState_scheme \<Rightarrow> Camera \<Rightarrow> Camera" where
  "Camera_setAtState state this = update (setAtState state this)"

definition rotate_camera :: "number \<Rightarrow> Camera \<Rightarrow> Camera" where
  "rotate_camera a this = update (setAngle (jadd (angle this) a) this)"

definition drag :: "Runtime \<Rightarrow> number \<Rightarrow> number \<Rightarrow> Camera \<Rightarrow> Camera" where
  "drag rt deltaX deltaY this =
     (let scale = scale this;
          angleRad = jdiv (jmul (angle this) Math_PI) (D 180);
          si = js_sin rt angleRad;
          co = js_cos rt angleRad;
          this = this\<lparr>clipped := False\<rparr>;
          this = this\<lparr>cx := jsub (cx this) (jdiv (jsub (jmul deltaX co) (jmul deltaY si)) scale)\<rparr>;
          this = this\<lparr>cy := jsub (cy this) (jdiv (jadd (jmul deltaX si) (jmul deltaY co)) scale)\<rparr>
      in update this)"

definition zoom :: "Runtime \<Rightarrow> number \<Rightarrow> number \<Rightarrow> number \<Rightarrow> Camera \<Rightarrow> Camera" where
  "zoom rt factor x y this =
     (let this = this\<lparr>width := jdiv (width this) factor\<rparr>;
          this = this\<lparr>height := jdiv (height this) factor\<rparr>
      in drag rt (jmul (jsub (D 1) factor) (jsub x (jdiv (vp_width (viewport this)) (D 2))))
                 (jmul (jsub (D 1) factor) (jsub y (jdiv (vp_height (viewport this)) (D 2))))
                 this)"

subsection \<open>The specification's formulas\<close>

text \<open>
  The modulo of the specification, with a remainder that is never negative, and its
  normalisation of an angle, on reals; the invariant of the specification, a width and a
  height above zero, as the comparison \<^verbatim>\<open>> 0\<close> of JavaScript; and \<open>not_positive\<close>, the numbers
  that are not above zero.
\<close>

definition spec_mod :: "real \<Rightarrow> real \<Rightarrow> real" where
  "spec_mod a b = a - b * of_int \<lfloor>a / b\<rfloor>"

definition spec_setAngle :: "real \<Rightarrow> real" where
  "spec_setAngle a = spec_mod (a + 180) 360 - 180"

definition not_positive :: "number \<Rightarrow> bool" where
  "not_positive x \<longleftrightarrow> (case x of Fin d \<Rightarrow> val d \<le> 0 | PInf \<Rightarrow> False | _ \<Rightarrow> True)"

definition positive_size :: "'a CameraState_scheme \<Rightarrow> bool" where
  "positive_size s \<longleftrightarrow> jgt (width s) (D 0) \<and> jgt (height s) (D 0)"

section \<open>Rounding\<close>

text \<open>Facts about the doubles and about rounding, and rules that evaluate one operation
  on given doubles from the significand and the exponent of the result.\<close>

lemma is_double_0: "is_double 0"
  unfolding is_double_def by (intro exI [of _ 0]) simp

lemma floor_log2:
  assumes "0 < x"
  shows "\<lfloor>log 2 x\<rfloor> = k \<longleftrightarrow> 2 powi k \<le> x \<and> x < 2 powi (k + 1)"
proof -
  have "2 powr (real_of_int k) = (2::real) powi k"
    and "2 powr (real_of_int k + 1) = (2::real) powi (k + 1)"
    using powr_real_of_int' [of 2 k] powr_real_of_int' [of 2 "k + 1"] by simp_all
  then show ?thesis using floor_log_eq_powr_iff [of x 2 k] assms by simp
qed

lemma expo_eqI:
  assumes "2 powi (e + 52) \<le> \<bar>x\<bar>" and "\<bar>x\<bar> < 2 powi (e + 53)" and "- 1074 \<le> e"
  shows "expo x = e"
proof -
  have "(0::real) < 2 powi (e + 52)" by simp
  then have "0 < \<bar>x\<bar>" using assms(1) by linarith
  then have "\<lfloor>log 2 \<bar>x\<bar>\<rfloor> = e + 52"
    using assms(1,2) by (simp add: floor_log2 add.commute add.left_commute)
  then show ?thesis using assms(3) by (simp add: expo_def)
qed

lemma expo_ge: "- 1074 \<le> expo x"
  by (simp add: expo_def)

lemma expo_upper:
  assumes "x \<noteq> 0"
  shows "\<bar>x\<bar> < 2 powi (expo x + 53)"
proof -
  define k where "k = \<lfloor>log 2 \<bar>x\<bar>\<rfloor>"
  have "\<bar>x\<bar> < 2 powi (k + 1)" using floor_log2 [of "\<bar>x\<bar>" k] assms by (simp add: k_def)
  also have "(2::real) powi (k + 1) \<le> 2 powi (expo x + 53)"
    by (rule power_int_increasing) (simp_all add: expo_def k_def)
  finally show ?thesis .
qed

lemma expo_lower:
  assumes "x \<noteq> 0" and "- 1074 < expo x"
  shows "2 powi (expo x + 52) \<le> \<bar>x\<bar>"
proof -
  define k where "k = \<lfloor>log 2 \<bar>x\<bar>\<rfloor>"
  have "expo x = k - 52" using assms(2) by (simp add: expo_def k_def max_def split: if_splits)
  moreover have "2 powi k \<le> \<bar>x\<bar>" using floor_log2 [of "\<bar>x\<bar>" k] assms by (simp add: k_def)
  ultimately show ?thesis by simp
qed

lemma round_even_int [simp]: "round_even (of_int n) = n"
  by (simp add: round_even_def)

lemma round_even_near:
  assumes "\<bar>q - of_int n\<bar> < 1 / 2"
  shows "round_even q = n"
proof (cases "of_int n \<le> q")
  case True
  then have "\<lfloor>q\<rfloor> = n" using assms by (intro floor_unique) linarith+
  then show ?thesis using assms True by (simp add: round_even_def)
next
  case False
  then have "of_int (n - 1) \<le> q" and "q < of_int (n - 1) + 1" using assms by linarith+
  then have f: "\<lfloor>q\<rfloor> = n - 1" by (rule floor_unique)
  have "1 / 2 < q - of_int (n - 1)" using assms False by simp
  then show ?thesis using f by (simp add: round_even_def)
qed

lemma round_even_tie:
  assumes "q = of_int f + 1 / 2"
  shows "round_even q = (if even f then f else f + 1)"
proof -
  have "\<lfloor>q\<rfloor> = f" unfolding assms by (intro floor_unique) simp_all
  then show ?thesis by (simp add: round_even_def assms)
qed

lemma round_even_le:
  assumes "q \<le> of_int n"
  shows "round_even q \<le> n"
proof -
  have f: "\<lfloor>q\<rfloor> \<le> n" using assms by (simp add: floor_le_iff)
  show ?thesis
  proof (cases "\<lfloor>q\<rfloor> = n")
    case True
    then have "q - of_int \<lfloor>q\<rfloor> \<le> 0" using assms by simp
    then show ?thesis using True by (simp add: round_even_def Let_def)
  next
    case False
    with f have "\<lfloor>q\<rfloor> + 1 \<le> n" by simp
    then show ?thesis using f by (simp add: round_even_def Let_def)
  qed
qed

lemma round_even_ge:
  assumes "of_int n \<le> q"
  shows "n \<le> round_even q"
proof -
  have "n \<le> \<lfloor>q\<rfloor>" using assms by (simp add: le_floor_iff)
  then show ?thesis by (simp add: round_even_def Let_def)
qed

lemma round_even_abs:
  assumes "\<bar>q\<bar> \<le> of_int n"
  shows "\<bar>round_even q\<bar> \<le> n"
proof -
  have "round_even q \<le> n" using assms by (intro round_even_le) simp
  moreover have "- n \<le> round_even q" using assms by (intro round_even_ge) simp
  ultimately show ?thesis by simp
qed

lemma is_doubleI:
  "\<bar>m\<bar> < 2 ^ 53 \<Longrightarrow> - 1074 \<le> e \<Longrightarrow> e \<le> 971 \<Longrightarrow> x = of_int m * 2 powi e \<Longrightarrow> is_double x"
  unfolding is_double_def by blast

lemma is_double_bound:
  assumes "is_double x"
  shows "\<bar>x\<bar> < 2 ^ 1024"
proof -
  from assms obtain m e :: int where m: "\<bar>m\<bar> < 2 ^ 53" and e: "e \<le> 971"
    and x: "x = of_int m * 2 powi e" unfolding is_double_def by blast
  have "\<bar>x\<bar> = \<bar>of_int m\<bar> * 2 powi e" by (simp add: x abs_mult)
  also have "\<dots> \<le> \<bar>of_int m\<bar> * 2 powi 971"
    by (intro mult_left_mono power_int_increasing) (use e in simp_all)
  also have "\<dots> < 2 ^ 53 * 2 powi 971"
  proof (rule mult_strict_right_mono)
    have "real_of_int \<bar>m\<bar> < real_of_int (2 ^ 53)" using m by (simp only: of_int_less_iff)
    then show "\<bar>real_of_int m\<bar> < 2 ^ 53" by simp
  qed simp
  also have "\<dots> = (2::real) ^ 1024" by simp
  finally show ?thesis .
qed

lemma rnd_fin_0 [simp]: "rnd_fin 0 = 0"
  by (simp add: rnd_fin_def)

lemma rnd_fin_fix:
  assumes "is_double x"
  shows "rnd_fin x = x"
proof (cases "x = 0")
  case True
  then show ?thesis by simp
next
  case False
  from assms obtain m e :: int where m: "\<bar>m\<bar> < 2 ^ 53" and e: "- 1074 \<le> e"
    and x: "x = of_int m * 2 powi e" unfolding is_double_def by blast
  define E where "E = expo x"
  have "\<bar>x\<bar> = \<bar>of_int m\<bar> * 2 powi e" by (simp add: x abs_mult)
  also have "\<dots> < 2 ^ 53 * 2 powi e"
  proof (rule mult_strict_right_mono)
    have "real_of_int \<bar>m\<bar> < real_of_int (2 ^ 53)" using m by (simp only: of_int_less_iff)
    then show "\<bar>real_of_int m\<bar> < 2 ^ 53" by simp
  qed simp
  also have "\<dots> = (2::real) powi (e + 53)" by (simp add: power_int_add)
  finally have up: "\<bar>x\<bar> < 2 powi (e + 53)" .
  have "E \<le> e"
  proof (rule ccontr)
    assume "\<not> E \<le> e"
    then have lt: "e < E" by simp
    with e have "- 1074 < expo x" by (simp add: E_def)
    from expo_lower [OF False this] have "2 powi (E + 52) \<le> \<bar>x\<bar>" by (simp add: E_def)
    moreover have "(2::real) powi (e + 53) \<le> 2 powi (E + 52)"
      by (rule power_int_increasing) (use lt in simp_all)
    ultimately show False using up by simp
  qed
  then obtain k :: nat where k: "e = E + int k" by (metis zle_iff_zadd)
  have "x / 2 powi E = of_int m * (2 powi (E + int k) / 2 powi E)" by (simp add: x k)
  also have "(2::real) powi (E + int k) / 2 powi E = 2 ^ k"
    by (simp add: power_int_add)
  finally have "x / 2 powi E = of_int (m * 2 ^ k)" by simp
  then have "round_even (x / 2 powi E) = m * 2 ^ k" by (simp only: round_even_int)
  then have "rnd_fin x = of_int (m * 2 ^ k) * 2 powi E"
    using False by (simp add: rnd_fin_def E_def)
  also have "\<dots> = x" by (simp add: x k power_int_add)
  finally show ?thesis .
qed

lemma rnd_fin_is_double:
  assumes "\<bar>rnd_fin x\<bar> < 2 ^ 1024"
  shows "is_double (rnd_fin x)"
proof (cases "x = 0")
  case True
  then show ?thesis by (simp add: is_double_0)
next
  case False
  define E where "E = expo x"
  define n where "n = round_even (x / 2 powi E)"
  have y: "rnd_fin x = of_int n * 2 powi E" using False by (simp add: rnd_fin_def E_def n_def)
  have E: "- 1074 \<le> E" by (simp add: E_def expo_ge)
  have "\<bar>x / 2 powi E\<bar> = \<bar>x\<bar> / 2 powi E" by simp
  also have "\<dots> < 2 powi (E + 53) / 2 powi E"
    using expo_upper [OF False] by (simp add: E_def divide_strict_right_mono)
  also have "\<dots> = 2 ^ 53" by (simp add: power_int_add)
  finally have "\<bar>x / 2 powi E\<bar> \<le> of_int (2 ^ 53)" by simp
  then have n: "\<bar>n\<bar> \<le> 2 ^ 53" unfolding n_def by (rule round_even_abs)
  show ?thesis
  proof (cases "\<bar>n\<bar> = 2 ^ 53")
    case False
    with n have n': "\<bar>n\<bar> < 2 ^ 53" by simp
    have "E \<le> 971"
    proof (rule ccontr)
      assume "\<not> E \<le> 971"
      then have big: "972 \<le> E" by simp
      then have "- 1074 < expo x" by (simp add: E_def)
      from expo_lower [OF \<open>x \<noteq> 0\<close> this] have "2 powi (E + 52) \<le> \<bar>x\<bar>" by (simp add: E_def)
      then have "2 powi (E + 52) / 2 powi E \<le> \<bar>x\<bar> / 2 powi E"
        by (simp add: divide_right_mono)
      then have "of_int (2 ^ 52) \<le> \<bar>x / 2 powi E\<bar>" by (simp add: power_int_add)
      then have "2 ^ 52 \<le> \<bar>n\<bar>"
      proof (cases "0 \<le> x")
        case True
        with \<open>of_int (2 ^ 52) \<le> \<bar>x / 2 powi E\<bar>\<close> have "of_int (2 ^ 52) \<le> x / 2 powi E" by simp
        then have "2 ^ 52 \<le> n" unfolding n_def by (rule round_even_ge)
        then show ?thesis by simp
      next
        case False
        with \<open>of_int (2 ^ 52) \<le> \<bar>x / 2 powi E\<bar>\<close> have "x / 2 powi E \<le> of_int (- (2 ^ 52))"
          by (simp add: abs_if divide_less_0_iff split: if_splits)
        then have "n \<le> - (2 ^ 52)" unfolding n_def by (rule round_even_le)
        then show ?thesis by simp
      qed
      then have "real_of_int (2 ^ 52) \<le> real_of_int \<bar>n\<bar>" by (simp only: of_int_le_iff)
      then have "2 ^ 52 * 2 powi 972 \<le> \<bar>real_of_int n\<bar> * 2 powi E"
        using big by (intro mult_mono power_int_increasing) simp_all
      then have "2 ^ 1024 \<le> \<bar>rnd_fin x\<bar>" by (simp add: y abs_mult)
      with assms show False by simp
    qed
    with n' E y show ?thesis by (intro is_doubleI [of n E]) simp_all
  next
    case True
    then have an: "\<bar>real_of_int n\<bar> = 2 ^ 53"
      by (metis of_int_abs of_int_numeral of_int_power)
    have "E \<le> 970"
    proof (rule ccontr)
      assume "\<not> E \<le> 970"
      then have "971 \<le> E" by simp
      then have "(2::real) ^ 53 * 2 powi 971 \<le> 2 ^ 53 * 2 powi E"
        by (intro mult_left_mono power_int_increasing) simp_all
      then have "2 ^ 1024 \<le> \<bar>rnd_fin x\<bar>" by (simp add: y abs_mult an)
      with assms show False by simp
    qed
    have "rnd_fin x = of_int (n div 2) * 2 powi (E + 1)"
    proof -
      have "even n" using True by (metis even_abs_add_iff even_add even_numeral even_power zero_less_numeral)
      then have "real_of_int n = 2 * real_of_int (n div 2)" by (metis even_two_times_div_two of_int_mult of_int_numeral)
      then show ?thesis by (simp add: y power_int_add)
    qed
    moreover have "\<bar>n div 2\<bar> < 2 ^ 53"
    proof -
      from True have "n = 2 ^ 53 \<or> n = - (2 ^ 53)" by (simp add: abs_if split: if_splits)
      then show ?thesis by auto
    qed
    ultimately show ?thesis using E \<open>E \<le> 970\<close> by (intro is_doubleI [of "n div 2" "E + 1"]) simp_all
  qed
qed

lemma is_double_val [simp]: "is_double (val d)"
  using val [of d] by simp

lemma val_dbl [simp]: "is_double x \<Longrightarrow> val (dbl x) = x"
  by (simp add: dbl_inverse)

lemma dbl_val [simp]: "dbl (val d) = d"
  by (rule val_inverse)

lemma D_eq_iff: "is_double x \<Longrightarrow> is_double y \<Longrightarrow> D x = D y \<longleftrightarrow> x = y"
  by (simp add: dbl_inject)

lemma rnd_double: "is_double x \<Longrightarrow> rnd x = D x"
  using is_double_bound [of x] by (simp add: rnd_def rnd_fin_fix)

lemma rnd_val [simp]: "rnd (val d) = Fin d"
  by (simp add: rnd_double)

lemma rnd_0 [simp]: "rnd 0 = D 0"
  by (simp add: rnd_double is_double_0)

lemma val_0 [simp]: "val (dbl 0) = 0"
  by (simp add: is_double_0)

lemma rnd_eval:
  assumes "2 powi (e + 52) \<le> \<bar>x\<bar>" and "\<bar>x\<bar> < 2 powi (e + 53)"
    and "- 1074 \<le> e" and "e \<le> 971"
    and "\<bar>x / 2 powi e - of_int n\<bar> < 1 / 2" and "\<bar>n\<bar> < 2 ^ 53"
    and "y = of_int n * 2 powi e"
  shows "rnd x = D y" and "is_double y"
proof -
  have e: "expo x = e" by (rule expo_eqI [OF assms(1,2,3)])
  have "(0::real) < 2 powi (e + 52)" by simp
  then have "0 < \<bar>x\<bar>" using assms(1) by linarith
  then have "x \<noteq> 0" by simp
  moreover have "round_even (x / 2 powi e) = n" by (rule round_even_near [OF assms(5)])
  ultimately have "rnd_fin x = y" by (simp add: rnd_fin_def e assms(7))
  moreover show d: "is_double y" by (rule is_doubleI [OF assms(6,3,4,7)])
  ultimately show "rnd x = D y" using is_double_bound [OF d] by (simp add: rnd_def)
qed

lemma rnd_eval_tie:
  assumes "2 powi (e + 52) \<le> \<bar>x\<bar>" and "\<bar>x\<bar> < 2 powi (e + 53)"
    and "- 1074 \<le> e" and "e \<le> 971"
    and "x / 2 powi e = of_int f + 1 / 2" and "n = (if even f then f else f + 1)"
    and "\<bar>n\<bar> < 2 ^ 53"
    and "y = of_int n * 2 powi e"
  shows "rnd x = D y" and "is_double y"
proof -
  have e: "expo x = e" by (rule expo_eqI [OF assms(1,2,3)])
  have "(0::real) < 2 powi (e + 52)" by simp
  then have "0 < \<bar>x\<bar>" using assms(1) by linarith
  then have "x \<noteq> 0" by simp
  moreover have "round_even (x / 2 powi e) = n"
    using round_even_tie [OF assms(5)] assms(6) by simp
  ultimately have "rnd_fin x = y" by (simp add: rnd_fin_def e assms(8))
  moreover show d: "is_double y" by (rule is_doubleI [OF assms(7,3,4,8)])
  ultimately show "rnd x = D y" using is_double_bound [OF d] by (simp add: rnd_def)
qed

lemma rnd_fin_nonneg: "0 \<le> x \<Longrightarrow> 0 \<le> rnd_fin x"
  using round_even_ge [of 0 "x / 2 powi expo x"] by (simp add: rnd_fin_def)

lemma rnd_fin_nonpos: "x \<le> 0 \<Longrightarrow> rnd_fin x \<le> 0"
  using round_even_le [of "x / 2 powi expo x" 0]
  by (simp add: rnd_fin_def divide_le_0_iff mult_le_0_iff)

lemma is_double_of_int:
  assumes "\<bar>n\<bar> < 2 ^ 53"
  shows "is_double (of_int n)"
  by (rule is_doubleI [OF assms, of 0]) simp_all

lemma is_double_numeral [simp]:
  "(numeral k :: int) < 2 ^ 53 \<Longrightarrow> is_double (numeral k)"
  using is_double_of_int [of "numeral k"] by simp

lemma is_double_1 [simp]: "is_double 1"
  using is_double_of_int [of 1] by simp

lemma is_double_zero [simp]: "is_double 0"
  by (rule is_double_0)

lemma is_double_minus [simp]: "is_double (- x) \<longleftrightarrow> is_double x"
proof -
  have "is_double (- y)" if "is_double y" for y
  proof -
    from that obtain m e :: int where "\<bar>m\<bar> < 2 ^ 53" "- 1074 \<le> e" "e \<le> 971"
      and "y = of_int m * 2 powi e" unfolding is_double_def by blast
    then show ?thesis by (intro is_doubleI [of "- m" e]) simp_all
  qed
  from this [of x] this [of "- x"] show ?thesis by auto
qed

lemma is_double_half [simp]: "is_double (1 / 2)"
  by (rule is_doubleI [of 1 "- 1"]) simp_all

lemma rnd_fin_pos:
  assumes "2 powi (- 1074) \<le> x"
  shows "0 < rnd_fin x"
proof -
  have "(0::real) < 2 powi (- 1074)" by simp
  then have x: "0 < x" using assms by linarith
  define E where "E = expo x"
  have "2 powi E \<le> x"
  proof (cases "E = - 1074")
    case True
    then show ?thesis using assms by simp
  next
    case False
    then have "- 1074 < expo x" using expo_ge [of x] by (simp add: E_def)
    from expo_lower [OF _ this] x have "2 powi (E + 52) \<le> x" by (simp add: E_def)
    moreover have "(2::real) powi E \<le> 2 powi (E + 52)"
      by (rule power_int_increasing) simp_all
    ultimately show ?thesis by simp
  qed
  then have "of_int 1 \<le> x / 2 powi E" by (simp add: pos_le_divide_eq)
  then have "1 \<le> round_even (x / 2 powi E)" by (rule round_even_ge)
  then have "0 < real_of_int (round_even (x / 2 powi E)) * 2 powi E" by simp
  then show ?thesis using x by (simp add: rnd_fin_def E_def)
qed

lemma expo_mono:
  assumes "0 < x" and "x \<le> y"
  shows "expo x \<le> expo y"
proof -
  have "log 2 \<bar>x\<bar> \<le> log 2 \<bar>y\<bar>" using assms by simp
  then have "\<lfloor>log 2 \<bar>x\<bar>\<rfloor> \<le> \<lfloor>log 2 \<bar>y\<bar>\<rfloor>" by (rule floor_mono)
  then show ?thesis by (simp add: expo_def)
qed

lemma double_grid:
  assumes "is_double c" and "c \<noteq> 0" and "E \<le> expo c"
  shows "\<exists>N :: int. c / 2 powi E = of_int N"
proof -
  from assms(1) have "rnd_fin c = c" by (rule rnd_fin_fix)
  then have c: "c = of_int (round_even (c / 2 powi expo c)) * 2 powi expo c"
    using assms(2) by (simp add: rnd_fin_def)
  obtain k :: nat where k: "expo c = E + int k" using assms(3) by (metis zle_iff_zadd)
  define n where "n = round_even (c / 2 powi expo c)"
  have "c / 2 powi E = of_int n * (2 powi (E + int k) / 2 powi E)"
    using c by (simp add: n_def k)
  also have "(2::real) powi (E + int k) / 2 powi E = 2 ^ k" by (simp add: power_int_add)
  finally have "c / 2 powi E = of_int (n * 2 ^ k)" by simp
  then show ?thesis ..
qed

lemma rnd_fin_le:
  assumes "is_double c" and "0 < c" and "x \<le> c"
  shows "rnd_fin x \<le> c"
proof (cases "x \<le> 0")
  case True
  then have "rnd_fin x \<le> 0" by (rule rnd_fin_nonpos)
  with assms(2) show ?thesis by simp
next
  case False
  then have x: "0 < x" by simp
  define E where "E = expo x"
  have "E \<le> expo c" unfolding E_def by (rule expo_mono [OF x assms(3)])
  from double_grid [OF assms(1) _ this] assms(2)
  obtain N :: int where N: "c / 2 powi E = of_int N" by auto
  have "x / 2 powi E \<le> c / 2 powi E" using assms(3) by (simp add: divide_right_mono)
  then have "round_even (x / 2 powi E) \<le> N" unfolding N by (rule round_even_le)
  then have "real_of_int (round_even (x / 2 powi E)) \<le> c / 2 powi E"
    unfolding N by (simp only: of_int_le_iff)
  then have "real_of_int (round_even (x / 2 powi E)) * 2 powi E \<le> c"
    by (simp add: pos_le_divide_eq)
  then show ?thesis using x by (simp add: rnd_fin_def E_def)
qed

lemma round_even_lt_half:
  assumes "q < of_int N - 1 / 2"
  shows "round_even q < N"
proof -
  have f: "\<lfloor>q\<rfloor> < N" using assms by (simp add: floor_less_iff)
  show ?thesis
  proof (cases "\<lfloor>q\<rfloor> = N - 1")
    case True
    then have "q - of_int \<lfloor>q\<rfloor> < 1 / 2" using assms by simp
    then show ?thesis using True by (simp add: round_even_def Let_def)
  next
    case False
    with f have "\<lfloor>q\<rfloor> + 1 < N" by simp
    then show ?thesis using f by (simp add: round_even_def Let_def)
  qed
qed

lemma round_even_gt_half:
  assumes "of_int N + 1 / 2 < q"
  shows "N < round_even q"
proof -
  have f: "N \<le> \<lfloor>q\<rfloor>" using assms by (simp add: le_floor_iff)
  show ?thesis
  proof (cases "\<lfloor>q\<rfloor> = N")
    case True
    then have "1 / 2 < q - of_int \<lfloor>q\<rfloor>" using assms by simp
    then show ?thesis using True by (simp add: round_even_def Let_def)
  next
    case False
    with f have "N < \<lfloor>q\<rfloor>" by simp
    then show ?thesis by (simp add: round_even_def Let_def)
  qed
qed

lemma is_double_max:
  assumes "is_double x"
  shows "\<bar>x\<bar> \<le> 2 ^ 1024 - 2 ^ 971"
proof -
  from assms obtain m e :: int where m: "\<bar>m\<bar> < 2 ^ 53" and e: "e \<le> 971"
    and x: "x = of_int m * 2 powi e" unfolding is_double_def by blast
  from m have "\<bar>m\<bar> \<le> 2 ^ 53 - 1" by simp
  then have "real_of_int \<bar>m\<bar> \<le> real_of_int (2 ^ 53 - 1)" by (simp only: of_int_le_iff)
  then have m': "\<bar>real_of_int m\<bar> \<le> 2 ^ 53 - 1" by simp
  have "\<bar>x\<bar> = \<bar>of_int m\<bar> * 2 powi e" by (simp add: x abs_mult)
  also have "\<dots> \<le> (2 ^ 53 - 1) * 2 powi 971"
    by (intro mult_mono power_int_increasing m') (use e in simp_all)
  also have "\<dots> = (2::real) ^ 1024 - 2 ^ 971" by simp
  finally show ?thesis .
qed

lemma rnd_fin_abs_bound:
  assumes "\<bar>x\<bar> < 2 ^ 1024 - 2 ^ 970"
  shows "\<bar>rnd_fin x\<bar> < 2 ^ 1024"
proof (cases "x = 0")
  case True
  then show ?thesis by simp
next
  case False
  define E where "E = expo x"
  define n where "n = round_even (x / 2 powi E)"
  have y: "rnd_fin x = of_int n * 2 powi E" using False by (simp add: rnd_fin_def E_def n_def)
  have "\<bar>x / 2 powi E\<bar> = \<bar>x\<bar> / 2 powi E" by simp
  also have "\<dots> < 2 powi (E + 53) / 2 powi E"
    using expo_upper [OF False] by (simp add: E_def divide_strict_right_mono)
  also have "\<dots> = 2 ^ 53" by (simp add: power_int_add)
  finally have "\<bar>x / 2 powi E\<bar> \<le> of_int (2 ^ 53)" by simp
  then have n: "\<bar>n\<bar> \<le> 2 ^ 53" unfolding n_def by (rule round_even_abs)
  have E: "E \<le> 971"
  proof (rule ccontr)
    assume "\<not> E \<le> 971"
    then have big: "972 \<le> E" by simp
    then have "- 1074 < expo x" by (simp add: E_def)
    from expo_lower [OF False this] have "2 powi (E + 52) \<le> \<bar>x\<bar>" by (simp add: E_def)
    moreover have "(2::real) powi 1024 \<le> 2 powi (E + 52)"
      by (rule power_int_increasing) (use big in simp_all)
    ultimately show False using assms by simp
  qed
  show ?thesis
  proof (cases "E = 971")
    case True
    have "\<bar>x\<bar> / 2 powi 971 < (2 ^ 1024 - 2 ^ 970) / 2 powi 971"
      using assms by (intro divide_strict_right_mono) simp_all
    also have "\<dots> = (2::real) ^ 53 - 1 / 2" by simp
    finally have q: "\<bar>x / 2 powi E\<bar> < 2 ^ 53 - 1 / 2" by (simp add: True)
    then have q1: "x / 2 powi E < 2 ^ 53 - 1 / 2" and q2: "- (2 ^ 53) + 1 / 2 < x / 2 powi E"
      by linarith+
    from q1 have "x / 2 powi E < of_int (2 ^ 53) - 1 / 2" by simp
    then have up: "n < 2 ^ 53" unfolding n_def by (rule round_even_lt_half)
    from q2 have "of_int (- (2 ^ 53)) + 1 / 2 < x / 2 powi E" by simp
    then have "- (2 ^ 53) < n" unfolding n_def by (rule round_even_gt_half)
    with up have "\<bar>n\<bar> \<le> 2 ^ 53 - 1" by simp
    then have "real_of_int \<bar>n\<bar> \<le> real_of_int (2 ^ 53 - 1)" by (simp only: of_int_le_iff)
    then have "\<bar>real_of_int n\<bar> * 2 powi 971 \<le> (2 ^ 53 - 1) * 2 powi 971"
      by (intro mult_right_mono) simp_all
    also have "\<dots> < (2::real) ^ 1024" by simp
    finally show ?thesis by (simp add: y True abs_mult)
  next
    case False
    with E have E': "E \<le> 970" by simp
    from n have "real_of_int \<bar>n\<bar> \<le> real_of_int (2 ^ 53)" by (simp only: of_int_le_iff)
    then have "\<bar>real_of_int n\<bar> * 2 powi E \<le> 2 ^ 53 * 2 powi 970"
      by (intro mult_mono power_int_increasing) (use E' in simp_all)
    also have "\<dots> < (2::real) ^ 1024" by simp
    finally show ?thesis by (simp add: y abs_mult)
  qed
qed

lemma rnd_add_small_fin:
  assumes "\<bar>y\<bar> \<le> 2 ^ 969"
  shows "\<exists>d. rnd (val a + y) = Fin d"
proof -
  have "\<bar>val a + y\<bar> \<le> \<bar>val a\<bar> + \<bar>y\<bar>" by simp
  also have "\<dots> \<le> (2 ^ 1024 - 2 ^ 971) + 2 ^ 969"
    using is_double_max [of "val a"] assms by simp
  also have "\<dots> < (2::real) ^ 1024 - 2 ^ 970" by simp
  finally have "\<bar>rnd_fin (val a + y)\<bar> < 2 ^ 1024" by (rule rnd_fin_abs_bound)
  then show ?thesis by (simp add: rnd_def)
qed

lemma rnd_overflow:
  assumes "2 ^ 1024 \<le> x"
  shows "rnd x = PInf"
proof -
  have "(0::real) < 2 ^ 1024" by simp
  then have x: "0 < x" using assms by linarith
  define E where "E = expo x"
  have "\<lfloor>log 2 \<bar>x\<bar>\<rfloor> \<ge> 1024"
  proof -
    have "(1024::real) \<le> log 2 x" using assms x by (simp add: le_log_iff)
    then show ?thesis using x by (simp add: le_floor_iff)
  qed
  then have big: "972 \<le> E" by (simp add: E_def expo_def)
  then have "- 1074 < expo x" by (simp add: E_def)
  from expo_lower [OF _ this] x have "2 powi (E + 52) \<le> x" by (simp add: E_def)
  then have "2 powi (E + 52) / 2 powi E \<le> x / 2 powi E" by (simp add: divide_right_mono)
  then have "of_int (2 ^ 52) \<le> x / 2 powi E" by (simp add: power_int_add)
  then have "2 ^ 52 \<le> round_even (x / 2 powi E)" by (rule round_even_ge)
  then have "real_of_int (2 ^ 52) \<le> real_of_int (round_even (x / 2 powi E))"
    by (simp only: of_int_le_iff)
  then have "2 ^ 52 * 2 powi 972 \<le> real_of_int (round_even (x / 2 powi E)) * 2 powi E"
    using big by (intro mult_mono power_int_increasing) simp_all
  then have "2 ^ 1024 \<le> rnd_fin x" using x by (simp add: rnd_fin_def E_def)
  then show ?thesis by (simp add: rnd_def)
qed

lemma rnd_numeral [simp]: "is_double x \<Longrightarrow> rnd x = D x"
  by (rule rnd_double)

lemma jadd_eval: "is_double x \<Longrightarrow> is_double y \<Longrightarrow> rnd (x + y) = r \<Longrightarrow> jadd (D x) (D y) = r"
  by simp

lemma jsub_eval: "is_double x \<Longrightarrow> is_double y \<Longrightarrow> rnd (x - y) = r \<Longrightarrow> jsub (D x) (D y) = r"
  by (simp add: jsub_def)

lemma jmul_eval: "is_double x \<Longrightarrow> is_double y \<Longrightarrow> rnd (x * y) = r \<Longrightarrow> jmul (D x) (D y) = r"
  by simp

lemma jdiv_eval:
  "is_double x \<Longrightarrow> is_double y \<Longrightarrow> rnd (x / y) = r \<Longrightarrow> y \<noteq> 0 \<Longrightarrow> jdiv (D x) (D y) = r"
  by simp

lemma jsqrt_eval: "is_double x \<Longrightarrow> 0 \<le> x \<Longrightarrow> rnd (sqrt x) = r \<Longrightarrow> jsqrt (D x) = r"
  by simp

lemma rnd_sqrt_eval:
  fixes x y :: real
  assumes "(2 powi (e + 52))\<^sup>2 \<le> x" and "x < (2 powi (e + 53))\<^sup>2"
    and "- 1074 \<le> e" and "e \<le> 971"
    and "((of_int n - 1 / 2) * 2 powi e)\<^sup>2 < x" and "x < ((of_int n + 1 / 2) * 2 powi e)\<^sup>2"
    and "0 < n" and "n < 2 ^ 53"
    and "y = of_int n * 2 powi e"
  shows "rnd (sqrt x) = D y" and "is_double y"
proof -
  have lo: "2 powi (e + 52) \<le> sqrt x" by (rule real_le_rsqrt [OF assms(1)])
  have hi: "sqrt x < 2 powi (e + 53)" by (rule real_less_lsqrt [OF _ assms(2)]) simp
  have "(0::real) < 2 powi (e + 52)" by simp
  then have p: "0 < sqrt x" using lo by linarith
  have a: "(of_int n - 1 / 2) * 2 powi e < sqrt x" by (rule real_less_rsqrt [OF assms(5)])
  have b: "sqrt x < (of_int n + 1 / 2) * 2 powi e"
    by (rule real_less_lsqrt [OF _ assms(6)]) (use assms(7) in simp)
  have "of_int n - 1 / 2 < sqrt x / 2 powi e" using a by (simp only: pos_less_divide_eq zero_less_power_int zero_less_numeral)
  moreover have "sqrt x / 2 powi e < of_int n + 1 / 2" using b by (simp only: pos_divide_less_eq zero_less_power_int zero_less_numeral)
  ultimately have "\<bar>sqrt x / 2 powi e - of_int n\<bar> < 1 / 2" by linarith
  moreover have "\<bar>n\<bar> < 2 ^ 53" using assms(7,8) by simp
  moreover have "2 powi (e + 52) \<le> \<bar>sqrt x\<bar>" "\<bar>sqrt x\<bar> < 2 powi (e + 53)" using lo hi p by simp_all
  ultimately show "rnd (sqrt x) = D y" and "is_double y"
    using assms(3,4,9) by (auto intro: rnd_eval)
qed

section \<open>Properties\<close>

subsection \<open>Helpers\<close>

lemma trunc_small: "- 1 < a \<Longrightarrow> a < 1 \<Longrightarrow> trunc a = 0"
  unfolding trunc_def by (auto simp: floor_eq_iff ceiling_eq_iff)

lemma D_inject [simp]: "is_double x \<Longrightarrow> is_double y \<Longrightarrow> dbl x = dbl y \<longleftrightarrow> x = y"
  by (simp add: dbl_inject)

lemma jneg_D [simp]: "is_double x \<Longrightarrow> jneg (D x) = D (- x)"
  by simp

lemma truthy_0 [simp]: "\<not> truthy (D 0)"
  by (simp add: truthy_def)

lemma jadd_0_left [simp]: "jadd (D 0) x = x"
  by (cases x) simp_all

lemma jadd_0_right [simp]: "jadd x (D 0) = x"
  by (cases x) simp_all

lemma jsub_0_right [simp]: "jsub x (D 0) = x"
  by (simp add: jsub_def)

lemma jmul_1_right [simp]: "jmul x (D 1) = x"
  by (cases x) (simp_all add: signed_inf_def)

lemma jmul_0_right [simp]: "jmul (Fin a) (D 0) = D 0"
  by simp

lemma jmul_0_left [simp]: "jmul (D 0) (Fin a) = D 0"
  by simp

lemma jsub_1_0 [simp]: "jsub (D 1) (D 0) = D 1"
  by simp

lemma jsub_1_1 [simp]: "jsub (D 1) (D 1) = D 0"
  by (simp add: jsub_def)

lemma linear_js_0: "linear_js (D 0) a (Fin b) = a"
  by (simp add: linear_js_def)

lemma linear_js_1: "linear_js (D 1) (Fin a) b = b"
  by (simp add: linear_js_def)

lemma jsub_360_fin: "\<exists>d. jsub (Fin a) (D 360) = Fin d"
  using rnd_add_small_fin [of "- 360" a] by (simp add: jsub_def)

subsection \<open>\<open>setAngle\<close>\<close>

text \<open>
  Claim C1: for every angle \<open>a\<close>, \<^verbatim>\<open>setAngle(a)\<close> stores \<open>((a + 180) mod 360) - 180\<close> with the
  mathematical modulo, an angle in \<open>[-180, 180)\<close>, the same for \<open>a\<close> and \<open>a + 360 k\<close>.

  The code computes \<^verbatim>\<open>(angle + 180) % 360 - 180\<close>, and \<^verbatim>\<open>%\<close> gives a remainder with the sign
  of the dividend. On a fresh state \<^verbatim>\<open>setAngle(-200)\<close> stores \<open>-200\<close>: it is outside
  \<open>[-180, 180)\<close>, the formula of the specification gives \<open>160\<close>, and \<open>160\<close> is what
  \<^verbatim>\<open>setAngle(-200 + 360)\<close> stores. The comment of the function promises an angle
  normalized in the interval \<open>[-180 ; 180]\<close>.
\<close>

theorem setAngle_minus_200:
  "angle (setAngle (D (- 200)) (init \<lparr>bbox_x = D 0, bbox_y = D 0, bbox_width = D 800, bbox_height = D 600\<rparr>))
     = D (- 200)
   \<and> spec_setAngle (- 200) = 160
   \<and> angle (setAngle (D (- 200 + 360))
              (init \<lparr>bbox_x = D 0, bbox_y = D 0, bbox_width = D 800, bbox_height = D 600\<rparr>)) = D 160"
  by (simp add: setAngle_def jsub_def trunc_small spec_setAngle_def spec_mod_def)

subsection \<open>\<open>interpolate\<close>: end points\<close>

text \<open>
  Claim C2, as stated, fails: with \<open>relativeZoom = 0\<close> and no path, \<^verbatim>\<open>interpolate(A, B, 0, 0)\<close>
  for \<open>A.angle = 170\<close> and \<open>B.angle = -170\<close> leaves the angle \<open>-190\<close>, not \<open>170\<close>, and keeps
  the receiver's \<open>clipped\<close>, here \<open>False\<close>, where \<open>A.clipped\<close> is \<open>True\<close>.
\<close>

theorem interpolate_endpoints_counterexample:
  "interpolate
     \<lparr>cx = D 100, cy = D 50, width = D 200, height = D 100, angle = D 170, clipped = True\<rparr>
     \<lparr>cx = D 300, cy = D 150, width = D 100, height = D 50, angle = D (- 170), clipped = True\<rparr>
     (D 0) (D 0) None False
     \<lparr>cx = D 400, cy = D 300, width = D 800, height = D 600, angle = D 0, clipped = False\<rparr>
   = \<lparr>cx = D 100, cy = D 50, width = D 200, height = D 100, angle = D (- 190), clipped = False\<rparr>
   \<and> angle \<lparr>cx = D 100, cy = D 50, width = D 200, height = D 100, angle = D (- 190), clipped = False\<rparr>
     \<noteq> angle \<lparr>cx = D 100, cy = D 50, width = D 200, height = D 100, angle = D 170, clipped = True\<rparr>
   \<and> clipped \<lparr>cx = D 100, cy = D 50, width = D 200, height = D 100, angle = D (- 190), clipped = False\<rparr>
     \<noteq> clipped \<lparr>cx = D 100, cy = D 50, width = D 200, height = D 100, angle = D 170, clipped = True\<rparr>"
  by (simp add: interpolate_def linear_js_def jsub_def jgt_def Let_def)

text \<open>
  Claim C2, amended: for all states \<open>A\<close> and \<open>B\<close> of finite numbers, with \<open>relativeZoom = 0\<close>
  and no path, \<^verbatim>\<open>interpolate(A, B, 0, 0)\<close> leaves the receiver with \<open>cx\<close>, \<open>cy\<close>, \<open>width\<close> and
  \<open>height\<close> of \<open>A\<close>, exactly, and \<^verbatim>\<open>interpolate(A, B, 1, 0)\<close> with those of \<open>B\<close>. The angle is
  \<open>A.angle\<close> at progress 0 unless \<open>B.angle - A.angle < -180\<close>, when it is \<open>A.angle - 360\<close>;
  it is \<open>B.angle\<close> at progress 1 unless \<open>B.angle - A.angle > 180\<close>, when it is
  \<open>B.angle - 360\<close>. Every other field of the receiver, \<open>clipped\<close> among them, is as
  before the call.
\<close>

theorem interpolate_endpoints:
  "interpolate
     \<lparr>cx = Fin ax, cy = Fin ay, width = Fin aw, height = Fin ah, angle = Fin aa, clipped = ac\<rparr>
     \<lparr>cx = Fin bx, cy = Fin by', width = Fin bw, height = Fin bh, angle = Fin ba, clipped = bc\<rparr>
     (D 0) (D 0) None rp this
   = this\<lparr>cx := Fin ax, cy := Fin ay, width := Fin aw, height := Fin ah,
          angle := (if jlt (jsub (Fin ba) (Fin aa)) (D (- 180))
                    then jsub (Fin aa) (D 360) else Fin aa)\<rparr>
   \<and> interpolate
     \<lparr>cx = Fin ax, cy = Fin ay, width = Fin aw, height = Fin ah, angle = Fin aa, clipped = ac\<rparr>
     \<lparr>cx = Fin bx, cy = Fin by', width = Fin bw, height = Fin bh, angle = Fin ba, clipped = bc\<rparr>
     (D 1) (D 0) None rp this
   = this\<lparr>cx := Fin bx, cy := Fin by', width := Fin bw, height := Fin bh,
          angle := (if jgt (jsub (Fin ba) (Fin aa)) (D 180)
                    then jsub (Fin ba) (D 360) else Fin ba)\<rparr>"
proof -
  obtain da where da: "jsub (Fin aa) (D 360) = Fin da" using jsub_360_fin by blast
  obtain db where db: "jsub (Fin ba) (D 360) = Fin db" using jsub_360_fin by blast
  have x: "\<not> (jgt d (D 180) \<and> jlt d (D (- 180)))" for d
    by (cases d) (auto simp: jgt_def)
  show ?thesis
    using x [of "jsub (Fin ba) (Fin aa)"]
    by (auto simp: interpolate_def Let_def linear_js_0 linear_js_1 da db)
qed

text \<open>
  Claim C9: for \<open>initial = {cx: 100, cy: 50, width: 200, height: 100, angle: 0}\<close> and
  \<open>final = {cx: 300, cy: 150, width: 100, height: 50, angle: 90}\<close>, with \<open>relativeZoom = 0\<close>
  and no path, \<^verbatim>\<open>interpolate\<close> at progress \<open>0.5\<close> yields \<open>cx = 200\<close>, \<open>cy = 100\<close>,
  \<open>width = 150\<close>, \<open>height = 75\<close> and \<open>angle = 45\<close>, whatever \<open>clipped\<close> is in the two states,
  whatever \<open>reversePath\<close> is and whatever the receiver was.
\<close>

theorem interpolate_scenario_1:
  "interpolate
     \<lparr>cx = D 100, cy = D 50, width = D 200, height = D 100, angle = D 0, clipped = ci\<rparr>
     \<lparr>cx = D 300, cy = D 150, width = D 100, height = D 50, angle = D 90, clipped = cf\<rparr>
     (D (1 / 2)) (D 0) None reversePath this
   = this\<lparr>cx := D 200, cy := D 100, width := D 150, height := D 75, angle := D 45\<rparr>"
  by (simp add: interpolate_def linear_js_def jsub_def jgt_def Let_def)

text \<open>
  Claim C10: for every pair of states, every progress and every relative zoom, NaN and
  the infinities included, with or without a path, \<^verbatim>\<open>interpolate\<close> leaves \<open>clipped\<close> as it
  was: the receiver after the call is the receiver before it with new \<open>cx\<close>, \<open>cy\<close>, \<open>width\<close>,
  \<open>height\<close> and \<open>angle\<close>.
\<close>

theorem interpolate_keeps_clipped:
  "clipped (interpolate i f p rz path rp this) = clipped this
   \<and> interpolate i f p rz path rp this
     = this\<lparr>cx := cx (interpolate i f p rz path rp this),
            cy := cy (interpolate i f p rz path rp this),
            width := width (interpolate i f p rz path rp this),
            height := height (interpolate i f p rz path rp this),
            angle := angle (interpolate i f p rz path rp this)\<rparr>"
  by (cases path) (simp_all add: interpolate_def Let_def)

subsection \<open>\<open>interpolate\<close>: the angle\<close>

text \<open>
  Claim C4: \<^verbatim>\<open>interpolate\<close> takes the angle the shorter way round, and the angle at progress
  1 differs from the angle at progress 0 by at most 180 degrees.

  The code corrects the final angle, or the initial one, by one turn and reads the
  angles as they are stored. \<^verbatim>\<open>setAngle(-500)\<close> stores \<open>-500\<close> (the defect of claim C1), and
  from a state with that angle to a state with the angle \<open>170\<close> the difference \<open>670\<close> is
  above \<open>180\<close>, so the code goes from \<open>-500\<close> to \<open>170 - 360 = -190\<close>: the angle is \<open>-500\<close> at
  progress 0 and \<open>-190\<close> at progress 1, a change of \<open>310\<close> degrees. The comment of the code
  reads: keep the smallest angle between the initial and final states.
\<close>

theorem interpolate_angle_minus_500:
  "angle (setAngle (D (- 500))
            \<lparr>cx = D 100, cy = D 50, width = D 200, height = D 100, angle = D 0, clipped = False\<rparr>)
     = D (- 500)
   \<and> angle (interpolate
       \<lparr>cx = D 100, cy = D 50, width = D 200, height = D 100, angle = D (- 500), clipped = False\<rparr>
       \<lparr>cx = D 300, cy = D 150, width = D 100, height = D 50, angle = D 170, clipped = False\<rparr>
       (D 0) (D 0) None False
       \<lparr>cx = D 400, cy = D 300, width = D 800, height = D 600, angle = D 0, clipped = False\<rparr>)
     = D (- 500)
   \<and> angle (interpolate
       \<lparr>cx = D 100, cy = D 50, width = D 200, height = D 100, angle = D (- 500), clipped = False\<rparr>
       \<lparr>cx = D 300, cy = D 150, width = D 100, height = D 50, angle = D 170, clipped = False\<rparr>
       (D 1) (D 0) None False
       \<lparr>cx = D 400, cy = D 300, width = D 800, height = D 600, angle = D 0, clipped = False\<rparr>)
     = D (- 190)
   \<and> jsub (D (- 190)) (D (- 500)) = D 310
   \<and> jgt (D 310) (D 180)"
  by (simp add: interpolate_def linear_js_def jsub_def jgt_def Let_def setAngle_def trunc_small)

lemma is_double_numeral_half [simp]:
  "(numeral k :: int) < 2 ^ 53 \<Longrightarrow> is_double (numeral k / 2)"
  by (rule is_doubleI [of "numeral k" "- 1"]) simp_all

lemma add_sub_exact:
  assumes "is_double (val c - val s)"
  shows "jadd (Fin s) (jsub (Fin c) (Fin s)) = Fin c"
  using assms by (simp add: jsub_def)

subsection \<open>\<open>interpolate\<close>: along a path\<close>




lemma scenario_3_locals:
  "rnd (1 / 5) = D (3602879701896397 / 2 ^ 54)
   \<and> quadratic_um (D (3602879701896397 / 2 ^ 54)) (D 100) (D 200) = D 240
   \<and> quadratic_tm (D (3602879701896397 / 2 ^ 54)) (D 100) (D 200) = D (5869708231508115 / 2 ^ 53)
   \<and> quadratic_k (D (3602879701896397 / 2 ^ 54)) (D 100) (D 200) = D (- (2899775401249251 / 2 ^ 43))
   \<and> is_double (3602879701896397 / 2 ^ 54) \<and> is_double (5869708231508115 / 2 ^ 53) \<and> is_double (- (2899775401249251 / 2 ^ 43))"
proof -
  have r1: "rnd (1 / 5) = D (3602879701896397 / 2 ^ 54)"
    by (rule rnd_eval(1) [where e = "-55" and n = "7205759403792794"]; simp)
  have d2: "is_double (3602879701896397 / 2 ^ 54)"
    by (rule is_doubleI [of "7205759403792794" "-55"]) simp_all
  have d3: "is_double 1"
    by (rule is_doubleI [of "4503599627370496" "-52"]) simp_all
  have r4: "rnd (1 + (3602879701896397 / 2 ^ 54)) = D (5404319552844595 / 2 ^ 52)"
    by (rule rnd_eval(1) [where e = "-52" and n = "5404319552844595"]; simp)
  have d5: "is_double (5404319552844595 / 2 ^ 52)"
    by (rule is_doubleI [of "5404319552844595" "-52"]) simp_all
  have o6: "jadd (D 1) (D (3602879701896397 / 2 ^ 54)) = D (5404319552844595 / 2 ^ 52)"
    by (rule jadd_eval [OF d3 d2 r4])
  have d7: "is_double 200"
    by (rule is_doubleI [of "7036874417766400" "-45"]) simp_all
  have r8: "rnd (200 * (5404319552844595 / 2 ^ 52)) = D 240"
    by (rule rnd_eval(1) [where e = "-45" and n = "8444249301319680"]; simp)
  have d9: "is_double 240"
    by (rule is_doubleI [of "8444249301319680" "-45"]) simp_all
  have o10: "jmul (D 200) (D (5404319552844595 / 2 ^ 52)) = D 240"
    by (rule jmul_eval [OF d7 d5 r8])
  have d11: "is_double 100"
    by (rule is_doubleI [of "7036874417766400" "-46"]) simp_all
  have r12: "rnd (100 - 240) = D (- 140)"
    by (rule rnd_eval(1) [where e = "-45" and n = "-4925812092436480"]; simp)
  have d13: "is_double (- 140)"
    by (rule is_doubleI [of "-4925812092436480" "-45"]) simp_all
  have o14: "jsub (D 100) (D 240) = D (- 140)"
    by (rule jsub_eval [OF d11 d9 r12])
  have r15: "rnd (200 - 240) = D (- 40)"
    by (rule rnd_eval(1) [where e = "-47" and n = "-5629499534213120"]; simp)
  have d16: "is_double (- 40)"
    by (rule is_doubleI [of "-5629499534213120" "-47"]) simp_all
  have o17: "jsub (D 200) (D 240) = D (- 40)"
    by (rule jsub_eval [OF d7 d9 r15])
  have r18: "rnd ((- 140) / (- 40)) = D (7 / 2)"
    by (rule rnd_eval(1) [where e = "-51" and n = "7881299347898368"]; simp)
  have d19: "is_double (7 / 2)"
    by (rule is_doubleI [of "7881299347898368" "-51"]) simp_all
  have o20: "jdiv (D (- 140)) (D (- 40)) = D (7 / 2)"
    by (rule jdiv_eval [OF d13 d16 r18]) simp
  have r21: "rnd (sqrt (7 / 2)) = D (8425463406411593 / 2 ^ 52)"
    by (rule rnd_sqrt_eval(1) [where e = "-52" and n = "8425463406411593"]; simp add: power2_eq_square)
  have d22: "is_double (8425463406411593 / 2 ^ 52)"
    by (rule is_doubleI [of "8425463406411593" "-52"]) simp_all
  have o23: "jsqrt (D (7 / 2)) = D (8425463406411593 / 2 ^ 52)"
    by (rule jsqrt_eval [OF d19 _ r21]) simp
  have r24: "rnd (1 + (8425463406411593 / 2 ^ 52)) = D (1616132879222761 / 2 ^ 49)"
    by (rule rnd_eval_tie(1) [where e = "-51" and f = "6464531516891044" and n = "6464531516891044"]; simp)
  have d25: "is_double (1616132879222761 / 2 ^ 49)"
    by (rule is_doubleI [of "6464531516891044" "-51"]) simp_all
  have o26: "jadd (D 1) (D (8425463406411593 / 2 ^ 52)) = D (1616132879222761 / 2 ^ 49)"
    by (rule jadd_eval [OF d3 d22 r24])
  have r27: "rnd ((8425463406411593 / 2 ^ 52) / (1616132879222761 / 2 ^ 49)) = D (5869708231508115 / 2 ^ 53)"
    by (rule rnd_eval(1) [where e = "-53" and n = "5869708231508115"]; simp)
  have d28: "is_double (5869708231508115 / 2 ^ 53)"
    by (rule is_doubleI [of "5869708231508115" "-53"]) simp_all
  have o29: "jdiv (D (8425463406411593 / 2 ^ 52)) (D (1616132879222761 / 2 ^ 49)) = D (5869708231508115 / 2 ^ 53)"
    by (rule jdiv_eval [OF d22 d25 r27]) simp
  have r30: "rnd ((- 140) / (5869708231508115 / 2 ^ 53)) = D (- (3779384703470051 / 2 ^ 44))"
    by (rule rnd_eval(1) [where e = "-45" and n = "-7558769406940102"]; simp)
  have d31: "is_double (- (3779384703470051 / 2 ^ 44))"
    by (rule is_doubleI [of "-7558769406940102" "-45"]) simp_all
  have o32: "jdiv (D (- 140)) (D (5869708231508115 / 2 ^ 53)) = D (- (3779384703470051 / 2 ^ 44))"
    by (rule jdiv_eval [OF d13 d28 r30]) simp
  have r33: "rnd ((- (3779384703470051 / 2 ^ 44)) / (5869708231508115 / 2 ^ 53)) = D (- (2899775401249251 / 2 ^ 43))"
    by (rule rnd_eval(1) [where e = "-44" and n = "-5799550802498502"]; simp)
  have d34: "is_double (- (2899775401249251 / 2 ^ 43))"
    by (rule is_doubleI [of "-5799550802498502" "-44"]) simp_all
  have o35: "jdiv (D (- (3779384703470051 / 2 ^ 44))) (D (5869708231508115 / 2 ^ 53)) = D (- (2899775401249251 / 2 ^ 43))"
    by (rule jdiv_eval [OF d31 d28 r33]) simp
  have gt: "jgt (D (3602879701896397 / 2 ^ 54)) (D 0)" using d2 by (simp add: jgt_def)
  have mx: "jmax (D 100) (D 200) = D 200" by (simp add: jmax_def)
  have um: "quadratic_um (D (3602879701896397 / 2 ^ 54)) (D 100) (D 200) = D 240"
    by (simp only: quadratic_um_def gt if_True mx o6 o10)
  have tm: "quadratic_tm (D (3602879701896397 / 2 ^ 54)) (D 100) (D 200) = D (5869708231508115 / 2 ^ 53)"
    by (simp only: quadratic_tm_def Let_def um o14 o17 o20 o23 o26 o29)
  have k: "quadratic_k (D (3602879701896397 / 2 ^ 54)) (D 100) (D 200) = D (- (2899775401249251 / 2 ^ 43))"
    by (simp only: quadratic_k_def Let_def um tm o14 o32 o35)
  show ?thesis using r1 um tm k d2 d28 d34 by blast
qed

subsection \<open>\<open>interpolate\<close>: the zoom parabola\<close>


lemma rnd_cases:
  obtains (fin) y where "rnd x = Fin y" and "val y = rnd_fin x"
  | (pinf) "rnd x = PInf" and "0 < x"
  | (ninf) "rnd x = NInf" and "x < 0"
proof (cases "2 ^ 1024 \<le> \<bar>rnd_fin x\<bar>")
  case False
  then have "is_double (rnd_fin x)" by (intro rnd_fin_is_double) simp
  then have "val (dbl (rnd_fin x)) = rnd_fin x" by simp
  with False show ?thesis by (intro fin [of "dbl (rnd_fin x)"]) (simp_all add: rnd_def)
next
  case True
  show ?thesis
  proof (cases "0 < rnd_fin x")
    case pos: True
    have "0 < x" using pos rnd_fin_nonpos [of x] by (cases "0 < x") simp_all
    with True pos show ?thesis by (intro pinf) (simp_all add: rnd_def)
  next
    case neg: False
    have "rnd_fin x \<noteq> 0" using True by auto
    with neg have "rnd_fin x < 0" by simp
    then have "x < 0" using rnd_fin_nonneg [of x] by (cases "x < 0") simp_all
    with True neg show ?thesis by (intro ninf) (simp_all add: rnd_def)
  qed
qed

lemma rnd_not_positive: "x \<le> 0 \<Longrightarrow> not_positive (rnd x)"
  by (cases x rule: rnd_cases) (simp_all add: not_positive_def rnd_fin_nonpos)

lemma square_not_positive:
  assumes "val k < 0"
  shows "not_positive (jmul (jmul (Fin k) dt) dt)"
proof (cases dt)
  case (Fin d)
  show ?thesis
  proof (cases "val k * val d" rule: rnd_cases)
    case (fin a)
    have "val a * val d \<le> 0"
    proof (cases "0 \<le> val d")
      case True
      then have "val k * val d \<le> 0" using assms by (simp add: mult_le_0_iff)
      then have "val a \<le> 0" unfolding fin(2) by (rule rnd_fin_nonpos)
      with True show ?thesis by (simp add: mult_le_0_iff)
    next
      case False
      then have "0 \<le> val k * val d" using assms by (simp add: zero_le_mult_iff)
      then have "0 \<le> val a" unfolding fin(2) by (rule rnd_fin_nonneg)
      with False show ?thesis by (simp add: mult_le_0_iff)
    qed
    then show ?thesis using Fin fin(1) by (simp add: rnd_not_positive)
  next
    case pinf
    then have "val d < 0" using assms by (simp add: zero_less_mult_iff)
    with pinf Fin show ?thesis by (simp add: not_positive_def signed_inf_def)
  next
    case ninf
    then have "0 < val d" using assms by (simp add: mult_less_0_iff)
    with ninf Fin show ?thesis by (simp add: not_positive_def signed_inf_def)
  qed
next
  case PInf
  then show ?thesis using assms by (simp add: not_positive_def signed_inf_def)
next
  case NInf
  then show ?thesis using assms by (simp add: not_positive_def signed_inf_def)
next
  case NaN
  then show ?thesis by (simp add: not_positive_def)
qed

lemma add_not_above:
  assumes "not_positive y" and "0 < val m"
  shows "\<not> jgt (jadd y (Fin m)) (Fin m)"
proof (cases y)
  case (Fin b)
  then have b: "val b \<le> 0" using assms(1) by (simp add: not_positive_def)
  show ?thesis
  proof (cases "val b + val m" rule: rnd_cases)
    case (fin c)
    have "rnd_fin (val b + val m) \<le> val m"
      by (rule rnd_fin_le) (use b assms(2) in simp_all)
    then show ?thesis using Fin fin by (simp add: jgt_def)
  next
    case pinf
    have "rnd_fin (val b + val m) \<le> val m"
      by (rule rnd_fin_le) (use b assms(2) in simp_all)
    moreover have "val m < 2 ^ 1024" using is_double_bound [of "val m"] by simp
    ultimately have "rnd (val b + val m) \<noteq> PInf"
      using rnd_fin_nonneg [of "val b + val m"] pinf(2) by (simp add: rnd_def)
    with pinf(1) show ?thesis by simp
  next
    case ninf
    then show ?thesis using Fin by (simp add: jgt_def)
  qed
next
  case PInf
  then show ?thesis using assms(1) by (simp add: not_positive_def)
next
  case NInf
  then show ?thesis by (simp add: jgt_def)
next
  case NaN
  then show ?thesis by (simp add: jgt_def)
qed

lemma quadratic_apex:
  assumes "quadratic_k rz u0 u1 = Fin k" and "quadratic_um rz u0 u1 = Fin m"
    and "quadratic_tm rz u0 u1 = Fin t"
  shows "quadratic (Fin t) rz u0 u1 = Fin m"
  by (simp add: quadratic_def Let_def assms jsub_def)

lemma quadratic_max:
  assumes "quadratic_k rz u0 u1 = Fin k" and "val k < 0"
    and "quadratic_um rz u0 u1 = Fin m" and "0 < val m"
  shows "\<not> jgt (quadratic p rz u0 u1) (Fin m)"
  unfolding quadratic_def Let_def assms(1,3)
  by (intro add_not_above square_not_positive assms(2,4))



lemma rnd_fin_double [simp]: "is_double x \<Longrightarrow> rnd_fin x = x"
  by (rule rnd_fin_fix)

lemma example_runtime_0 [simp]:
  "Math_sin example_runtime (dbl 0) = dbl 0"
  "Math_cos example_runtime (dbl 0) = dbl 1"
  by (simp_all add: example_runtime_def)

lemma update_frame [simp]:
  "cx (update this) = cx this" "cy (update this) = cy this"
  "width (update this) = width this" "height (update this) = height this"
  "angle (update this) = angle this" "clipped (update this) = clipped this"
  "viewport (update this) = viewport this"
  by (simp_all add: update_def Let_def)

lemma drag_keeps [simp]:
  "width (drag rt deltaX deltaY this) = width this"
  "height (drag rt deltaX deltaY this) = height this"
  "angle (drag rt deltaX deltaY this) = angle this"
  "viewport (drag rt deltaX deltaY this) = viewport this"
  "clipped (drag rt deltaX deltaY this) = False"
  by (simp_all add: drag_def Let_def)

lemma drag_centre:
  "cx (drag rt deltaX deltaY this)
     = jsub (cx this)
         (jdiv (jsub (jmul deltaX (js_cos rt (jdiv (jmul (angle this) Math_PI) (D 180))))
                     (jmul deltaY (js_sin rt (jdiv (jmul (angle this) Math_PI) (D 180)))))
               (scale this))"
  "cy (drag rt deltaX deltaY this)
     = jsub (cy this)
         (jdiv (jadd (jmul deltaX (js_sin rt (jdiv (jmul (angle this) Math_PI) (D 180))))
                     (jmul deltaY (js_cos rt (jdiv (jmul (angle this) Math_PI) (D 180)))))
               (scale this))"
  by (simp_all add: drag_def Let_def scale_def)

lemma drag_0_0:
  assumes "scale this = Fin s" and "val s \<noteq> 0"
    and "jdiv (jmul (angle this) Math_PI) (D 180) = Fin r"
  shows "cx (drag rt (D 0) (D 0) this) = cx this" and "cy (drag rt (D 0) (D 0) this) = cy this"
  using assms by (simp_all add: drag_centre js_sin_def js_cos_def jsub_def)

lemma rnd_small_fin:
  assumes "\<bar>x\<bar> \<le> 2 ^ 1023"
  shows "\<exists>d. rnd x = Fin d"
proof -
  have "\<bar>x\<bar> < 2 ^ 1024 - 2 ^ 970" using assms by simp
  then have "\<bar>rnd_fin x\<bar> < 2 ^ 1024" by (rule rnd_fin_abs_bound)
  then show ?thesis by (simp add: rnd_def)
qed

lemma angle_radians_finite:
  assumes "\<bar>val a\<bar> \<le> 2 ^ 1000"
  shows "\<exists>r. jdiv (jmul (Fin a) Math_PI) (D 180) = Fin r"
proof -
  have pi: "is_double (884279719003555 / 2 ^ 48)"
    by (rule is_doubleI [of "884279719003555" "- 48"]) simp_all
  have "\<bar>val a * (884279719003555 / 2 ^ 48)\<bar> = \<bar>val a\<bar> * (884279719003555 / 2 ^ 48)"
    by (simp add: abs_mult)
  also have "\<dots> \<le> 2 ^ 1000 * (884279719003555 / 2 ^ 48)"
    using assms by (intro mult_right_mono) simp_all
  also have "\<dots> \<le> 2 ^ 1023" by simp
  finally obtain d where d: "rnd (val a * (884279719003555 / 2 ^ 48)) = Fin d"
    using rnd_small_fin by blast
  have "\<bar>val d\<bar> < 2 ^ 1024" by (rule is_double_bound) simp
  then have "\<bar>val d / 180\<bar> \<le> 2 ^ 1023" by simp
  then obtain r where r: "rnd (val d / 180) = Fin r" using rnd_small_fin by blast
  have "jmul (Fin a) Math_PI = Fin d" using d pi by (simp add: Math_PI_def)
  then show ?thesis using r by simp
qed

lemma jadd_NaN_right [simp]: "jadd a NaN = NaN"
  by (cases a) simp_all

lemma drag_0_0_nan:
  assumes "jdiv (jmul (angle this) Math_PI) (D 180) = PInf
     \<or> jdiv (jmul (angle this) Math_PI) (D 180) = NInf
     \<or> jdiv (jmul (angle this) Math_PI) (D 180) = NaN"
  shows "cx (drag rt (D 0) (D 0) this) = NaN"
  using assms by (auto simp add: drag_centre js_sin_def js_cos_def jsub_def)

subsection \<open>\<open>drag\<close>\<close>

text \<open>
  Claim C7, as stated, fails: a finite scale other than zero is not enough for
  \<^verbatim>\<open>drag(0, 0)\<close> to keep the centre. After \<^verbatim>\<open>rotate(Infinity)\<close> a camera of size \<open>200 x 100\<close> in
  a viewport \<open>800 x 600\<close> has the scale \<open>4\<close> and the angle NaN, and \<^verbatim>\<open>drag(0, 0)\<close> turns \<open>cx\<close>
  from \<open>400\<close> into NaN, since \<open>0 * NaN\<close> is NaN. The same happens to a camera whose fields
  are all finite when its angle is \<open>2 ^ 1023\<close>: the angle in radians overflows.
\<close>

theorem drag_frame_counterexample:
  "scale (rotate_camera PInf
       \<lparr>cx = D 400, cy = D 300, width = D 200, height = D 100, angle = D 0, clipped = True,
        viewport = \<lparr>vp_width = D 800, vp_height = D 600\<rparr>,
        svgClipRect = None, svgTransform = None\<rparr>) = D 4
   \<and> angle (rotate_camera PInf
       \<lparr>cx = D 400, cy = D 300, width = D 200, height = D 100, angle = D 0, clipped = True,
        viewport = \<lparr>vp_width = D 800, vp_height = D 600\<rparr>,
        svgClipRect = None, svgTransform = None\<rparr>) = NaN
   \<and> cx (rotate_camera PInf
       \<lparr>cx = D 400, cy = D 300, width = D 200, height = D 100, angle = D 0, clipped = True,
        viewport = \<lparr>vp_width = D 800, vp_height = D 600\<rparr>,
        svgClipRect = None, svgTransform = None\<rparr>) = D 400
   \<and> cx (drag example_runtime (D 0) (D 0) (rotate_camera PInf
       \<lparr>cx = D 400, cy = D 300, width = D 200, height = D 100, angle = D 0, clipped = True,
        viewport = \<lparr>vp_width = D 800, vp_height = D 600\<rparr>,
        svgClipRect = None, svgTransform = None\<rparr>)) = NaN
   \<and> scale
       \<lparr>cx = D 400, cy = D 300, width = D 200, height = D 100, angle = D (2 ^ 1023),
        clipped = True, viewport = \<lparr>vp_width = D 800, vp_height = D 600\<rparr>,
        svgClipRect = None, svgTransform = None\<rparr> = D 4
   \<and> cx (drag example_runtime (D 0) (D 0)
       \<lparr>cx = D 400, cy = D 300, width = D 200, height = D 100, angle = D (2 ^ 1023),
        clipped = True, viewport = \<lparr>vp_width = D 800, vp_height = D 600\<rparr>,
        svgClipRect = None, svgTransform = None\<rparr>) = NaN"
proof -
  let ?c = "\<lparr>cx = D 400, cy = D 300, width = D 200, height = D 100, angle = D (2 ^ 1023),
        clipped = True, viewport = \<lparr>vp_width = D 800, vp_height = D 600\<rparr>,
        svgClipRect = None, svgTransform = None\<rparr>"
  have big: "is_double (2 ^ 1023)"
    by (rule is_doubleI [of "2 ^ 52" "971"]) simp_all
  have pi: "is_double (884279719003555 / 2 ^ 48)"
    by (rule is_doubleI [of "884279719003555" "- 48"]) simp_all
  have "rnd (2 ^ 1023 * (884279719003555 / 2 ^ 48)) = PInf"
    by (rule rnd_overflow) simp
  then have "jmul (D (2 ^ 1023)) Math_PI = PInf"
    using big pi by (simp add: Math_PI_def del: power_numeral)
  then have "jdiv (jmul (D (2 ^ 1023)) Math_PI) (D 180) = PInf"
    by (simp add: signed_inf_def)
  moreover have "angle ?c = D (2 ^ 1023)" by (simp only: CameraState.select_convs)
  ultimately have "jdiv (jmul (angle ?c) Math_PI) (D 180) = PInf" by (simp only:)
  then have 1: "cx (drag example_runtime (D 0) (D 0) ?c) = NaN"
    by (intro drag_0_0_nan disjI1)
  have 2: "scale ?c = D 4"
    by (simp add: scale_def jmin_def)
  have 3: "scale (rotate_camera PInf
       \<lparr>cx = D 400, cy = D 300, width = D 200, height = D 100, angle = D 0, clipped = True,
        viewport = \<lparr>vp_width = D 800, vp_height = D 600\<rparr>,
        svgClipRect = None, svgTransform = None\<rparr>) = D 4"
    by (simp add: rotate_camera_def setAngle_def scale_def jmin_def)
  have 4: "angle (rotate_camera PInf
       \<lparr>cx = D 400, cy = D 300, width = D 200, height = D 100, angle = D 0, clipped = True,
        viewport = \<lparr>vp_width = D 800, vp_height = D 600\<rparr>,
        svgClipRect = None, svgTransform = None\<rparr>) = NaN"
    by (simp add: rotate_camera_def setAngle_def jsub_def)
  have 5: "cx (rotate_camera PInf
       \<lparr>cx = D 400, cy = D 300, width = D 200, height = D 100, angle = D 0, clipped = True,
        viewport = \<lparr>vp_width = D 800, vp_height = D 600\<rparr>,
        svgClipRect = None, svgTransform = None\<rparr>) = D 400"
    by (simp add: rotate_camera_def setAngle_def)
  have 6: "cx (drag example_runtime (D 0) (D 0) (rotate_camera PInf
       \<lparr>cx = D 400, cy = D 300, width = D 200, height = D 100, angle = D 0, clipped = True,
        viewport = \<lparr>vp_width = D 800, vp_height = D 600\<rparr>,
        svgClipRect = None, svgTransform = None\<rparr>)) = NaN"
    by (rule drag_0_0_nan) (simp add: 4)
  show ?thesis
    by (intro conjI 1 2 3 4 5 6)
qed

text \<open>
  Claim C7, amended: for every camera and every \<open>deltaX\<close>, \<open>deltaY\<close>, \<^verbatim>\<open>drag\<close> leaves \<open>width\<close>,
  \<open>height\<close>, \<open>angle\<close> and the viewport unchanged and sets \<open>clipped\<close> to false; and for every
  camera whose scale is finite and not zero and whose angle is finite, of magnitude at
  most \<open>2 ^ 1000\<close>, \<^verbatim>\<open>drag(0, 0)\<close> leaves \<open>cx\<close> and \<open>cy\<close> unchanged.
\<close>

theorem drag_frame:
  "width (drag rt deltaX deltaY this) = width this
   \<and> height (drag rt deltaX deltaY this) = height this
   \<and> angle (drag rt deltaX deltaY this) = angle this
   \<and> viewport (drag rt deltaX deltaY this) = viewport this
   \<and> clipped (drag rt deltaX deltaY this) = False
   \<and> (scale this = Fin s \<and> val s \<noteq> 0 \<and> angle this = Fin a \<and> \<bar>val a\<bar> \<le> 2 ^ 1000 \<longrightarrow>
        cx (drag rt (D 0) (D 0) this) = cx this \<and> cy (drag rt (D 0) (D 0) this) = cy this)"
proof -
  have "cx (drag rt (D 0) (D 0) this) = cx this \<and> cy (drag rt (D 0) (D 0) this) = cy this"
    if h: "scale this = Fin s" "val s \<noteq> 0" "angle this = Fin a" "\<bar>val a\<bar> \<le> 2 ^ 1000"
  proof -
    obtain r where "jdiv (jmul (angle this) Math_PI) (D 180) = Fin r"
      using angle_radians_finite [OF h(4)] h(3) by auto
    then show ?thesis using drag_0_0 [OF h(1,2)] by simp
  qed
  then show ?thesis by simp
qed

text \<open>
  Claim C7, an instance: a camera of width \<open>0\<close> and height \<open>100\<close> at the angle \<open>30\<close> in a
  viewport \<open>800 x 600\<close>. Its scale is \<open>min(Infinity, 6) = 6\<close>; \<^verbatim>\<open>drag(0, 0)\<close> keeps the centre
  \<open>(400, 300)\<close> and clears \<open>clipped\<close>, and \<^verbatim>\<open>drag(10, 20)\<close> keeps the width, the height and
  the angle.
\<close>

theorem drag_frame_witness:
  "scale \<lparr>cx = D 400, cy = D 300, width = D 0, height = D 100, angle = D 30, clipped = True,
          viewport = \<lparr>vp_width = D 800, vp_height = D 600\<rparr>,
          svgClipRect = None, svgTransform = None\<rparr> = D 6
   \<and> cx (drag example_runtime (D 0) (D 0)
         \<lparr>cx = D 400, cy = D 300, width = D 0, height = D 100, angle = D 30, clipped = True,
          viewport = \<lparr>vp_width = D 800, vp_height = D 600\<rparr>,
          svgClipRect = None, svgTransform = None\<rparr>) = D 400
   \<and> cy (drag example_runtime (D 0) (D 0)
         \<lparr>cx = D 400, cy = D 300, width = D 0, height = D 100, angle = D 30, clipped = True,
          viewport = \<lparr>vp_width = D 800, vp_height = D 600\<rparr>,
          svgClipRect = None, svgTransform = None\<rparr>) = D 300
   \<and> clipped (drag example_runtime (D 0) (D 0)
         \<lparr>cx = D 400, cy = D 300, width = D 0, height = D 100, angle = D 30, clipped = True,
          viewport = \<lparr>vp_width = D 800, vp_height = D 600\<rparr>,
          svgClipRect = None, svgTransform = None\<rparr>) = False
   \<and> width (drag example_runtime (D 10) (D 20)
         \<lparr>cx = D 400, cy = D 300, width = D 0, height = D 100, angle = D 30, clipped = True,
          viewport = \<lparr>vp_width = D 800, vp_height = D 600\<rparr>,
          svgClipRect = None, svgTransform = None\<rparr>) = D 0
   \<and> height (drag example_runtime (D 10) (D 20)
         \<lparr>cx = D 400, cy = D 300, width = D 0, height = D 100, angle = D 30, clipped = True,
          viewport = \<lparr>vp_width = D 800, vp_height = D 600\<rparr>,
          svgClipRect = None, svgTransform = None\<rparr>) = D 100
   \<and> angle (drag example_runtime (D 10) (D 20)
         \<lparr>cx = D 400, cy = D 300, width = D 0, height = D 100, angle = D 30, clipped = True,
          viewport = \<lparr>vp_width = D 800, vp_height = D 600\<rparr>,
          svgClipRect = None, svgTransform = None\<rparr>) = D 30"
proof -
  have s: "scale \<lparr>cx = D 400, cy = D 300, width = D 0, height = D 100, angle = D 30,
          clipped = True, viewport = \<lparr>vp_width = D 800, vp_height = D 600\<rparr>,
          svgClipRect = None, svgTransform = None\<rparr> = D 6"
    by (simp add: scale_def jmin_def signed_inf_def)
  show ?thesis
    using s
      drag_frame [where rt = example_runtime and deltaX = "D 0" and deltaY = "D 0"
        and s = "dbl 6" and a = "dbl 30"
        and this = "\<lparr>cx = D 400, cy = D 300, width = D 0, height = D 100, angle = D 30,
          clipped = True, viewport = \<lparr>vp_width = D 800, vp_height = D 600\<rparr>,
          svgClipRect = None, svgTransform = None\<rparr>"]
      drag_frame [where rt = example_runtime and deltaX = "D 10" and deltaY = "D 20"
        and this = "\<lparr>cx = D 400, cy = D 300, width = D 0, height = D 100, angle = D 30,
          clipped = True, viewport = \<lparr>vp_width = D 800, vp_height = D 600\<rparr>,
          svgClipRect = None, svgTransform = None\<rparr>"]
    by simp
qed

lemma jmin_same:
  "jeq a b \<Longrightarrow> jmin a b = a"
  by (cases a) (simp_all add: jeq_def jmin_def)

lemma update_rect:
  "svgClipRect (update this)
     = Some \<lparr>rect_x = (if clipped this
                      then jdiv (jsub (vp_width (viewport this))
                                      (jmul (width this) (scale this))) (D 2)
                      else D 0),
             rect_y = (if clipped this
                      then jdiv (jsub (vp_height (viewport this))
                                      (jmul (height this) (scale this))) (D 2)
                      else D 0),
             rect_width = (if clipped this then jmul (width this) (scale this)
                           else vp_width (viewport this)),
             rect_height = (if clipped this then jmul (height this) (scale this)
                            else vp_height (viewport this))\<rparr>"
  by (simp add: update_def Let_def)

lemma exact_ratio:
  assumes "val w \<noteq> 0" and "is_double (val vw / val w)"
  shows "jdiv (Fin vw) (Fin w) = D (val vw / val w)"
    and "jmul (Fin w) (D (val vw / val w)) = Fin vw"
  using assms by simp_all

lemma jsub_self [simp]: "jsub (Fin a) (Fin a) = D 0"
proof -
  have "is_double (- val a)" by simp
  then show ?thesis by (simp add: jsub_def)
qed

lemma jdiv_0_2 [simp]: "jdiv (D 0) (D 2) = D 0"
  by simp

subsection \<open>\<open>scale\<close> and \<open>update\<close>\<close>

text \<open>
  Claim C8, as stated, fails: with equal ratios the frame need not be the viewport
  exactly. A camera \<open>44 x 44\<close> in a viewport \<open>800 x 800\<close> has the scale \<open>800 / 44\<close>, the double
  \<open>5117726849284655 / 2 ^ 48\<close>, and \<open>44\<close> times that is \<open>800.0000000000001\<close>, the double
  \<open>7036874417766401 / 2 ^ 43\<close>: \<^verbatim>\<open>update\<close> writes this width and height, at \<open>x\<close> and \<open>y\<close>
  just below zero. A camera \<open>0 x 0\<close> has two ratios equal to \<open>Infinity\<close>, the scale
  \<open>Infinity\<close>, and a frame of NaN, since \<open>0 * Infinity\<close> is NaN.
\<close>

theorem scale_fit_counterexample:
  "jdiv (D 800) (D 44) = D (5117726849284655 / 2 ^ 48)
   \<and> scale
       \<lparr>cx = D 400, cy = D 400, width = D 44, height = D 44, angle = D 0, clipped = True,
        viewport = \<lparr>vp_width = D 800, vp_height = D 800\<rparr>,
        svgClipRect = None, svgTransform = None\<rparr> = D (5117726849284655 / 2 ^ 48)
   \<and> svgClipRect (update
       \<lparr>cx = D 400, cy = D 400, width = D 44, height = D 44, angle = D 0, clipped = True,
        viewport = \<lparr>vp_width = D 800, vp_height = D 800\<rparr>,
        svgClipRect = None, svgTransform = None\<rparr>)
       = Some \<lparr>rect_x = D (- (1 / 2 ^ 44)), rect_y = D (- (1 / 2 ^ 44)),
             rect_width = D (7036874417766401 / 2 ^ 43),
             rect_height = D (7036874417766401 / 2 ^ 43)\<rparr>
   \<and> D (7036874417766401 / 2 ^ 43) \<noteq> D 800
   \<and> jdiv (D 800) (D 0) = PInf
   \<and> scale
       \<lparr>cx = D 0, cy = D 0, width = D 0, height = D 0, angle = D 0, clipped = True,
        viewport = \<lparr>vp_width = D 800, vp_height = D 800\<rparr>,
        svgClipRect = None, svgTransform = None\<rparr> = PInf
   \<and> svgClipRect (update
       \<lparr>cx = D 0, cy = D 0, width = D 0, height = D 0, angle = D 0, clipped = True,
        viewport = \<lparr>vp_width = D 800, vp_height = D 800\<rparr>,
        svgClipRect = None, svgTransform = None\<rparr>)
       = Some \<lparr>rect_x = NaN, rect_y = NaN, rect_width = NaN, rect_height = NaN\<rparr>"
proof -
  have d1: "is_double 800"
    by (rule is_doubleI [of "7036874417766400" "-43"]) simp_all
  have d2: "is_double 44"
    by (rule is_doubleI [of "6192449487634432" "-47"]) simp_all
  have r3: "rnd (800 / 44) = D (5117726849284655 / 2 ^ 48)"
    by (rule rnd_eval(1) [where e = "-48" and n = "5117726849284655"]; simp)
  have d4: "is_double (5117726849284655 / 2 ^ 48)"
    by (rule is_doubleI [of "5117726849284655" "-48"]) simp_all
  have o5: "jdiv (D 800) (D 44) = D (5117726849284655 / 2 ^ 48)"
    by (rule jdiv_eval [OF d1 d2 r3]) simp
  have r6: "rnd (44 * (5117726849284655 / 2 ^ 48)) = D (7036874417766401 / 2 ^ 43)"
    by (rule rnd_eval(1) [where e = "-43" and n = "7036874417766401"]; simp)
  have d7: "is_double (7036874417766401 / 2 ^ 43)"
    by (rule is_doubleI [of "7036874417766401" "-43"]) simp_all
  have o8: "jmul (D 44) (D (5117726849284655 / 2 ^ 48)) = D (7036874417766401 / 2 ^ 43)"
    by (rule jmul_eval [OF d2 d4 r6])
  have r9: "rnd (800 - (7036874417766401 / 2 ^ 43)) = D (- (1 / 2 ^ 43))"
    by (rule rnd_eval(1) [where e = "-95" and n = "-4503599627370496"]; simp)
  have d10: "is_double (- (1 / 2 ^ 43))"
    by (rule is_doubleI [of "-4503599627370496" "-95"]) simp_all
  have o11: "jsub (D 800) (D (7036874417766401 / 2 ^ 43)) = D (- (1 / 2 ^ 43))"
    by (rule jsub_eval [OF d1 d7 r9])
  have d12: "is_double 2"
    by (rule is_doubleI [of "4503599627370496" "-51"]) simp_all
  have r13: "rnd ((- (1 / 2 ^ 43)) / 2) = D (- (1 / 2 ^ 44))"
    by (rule rnd_eval(1) [where e = "-96" and n = "-4503599627370496"]; simp)
  have d14: "is_double (- (1 / 2 ^ 44))"
    by (rule is_doubleI [of "-4503599627370496" "-96"]) simp_all
  have o15: "jdiv (D (- (1 / 2 ^ 43))) (D 2) = D (- (1 / 2 ^ 44))"
    by (rule jdiv_eval [OF d10 d12 r13]) simp
  have ne: "D (7036874417766401 / 2 ^ 43) \<noteq> D 800"
    using d7 by (simp add: dbl_inject)
  have s: "scale
       \<lparr>cx = D 400, cy = D 400, width = D 44, height = D 44, angle = D 0, clipped = True,
        viewport = \<lparr>vp_width = D 800, vp_height = D 800\<rparr>,
        svgClipRect = None, svgTransform = None\<rparr> = jdiv (D 800) (D 44)"
    by (simp add: scale_def jmin_def del: jdiv.simps)
  have u: "svgClipRect (update
       \<lparr>cx = D 400, cy = D 400, width = D 44, height = D 44, angle = D 0, clipped = True,
        viewport = \<lparr>vp_width = D 800, vp_height = D 800\<rparr>,
        svgClipRect = None, svgTransform = None\<rparr>)
       = Some \<lparr>rect_x = jdiv (jsub (D 800) (jmul (D 44) (jdiv (D 800) (D 44)))) (D 2),
               rect_y = jdiv (jsub (D 800) (jmul (D 44) (jdiv (D 800) (D 44)))) (D 2),
               rect_width = jmul (D 44) (jdiv (D 800) (D 44)),
               rect_height = jmul (D 44) (jdiv (D 800) (D 44))\<rparr>"
    by (simp add: update_def Let_def s del: jdiv.simps jmul.simps)
  have i: "jdiv (D 800) (D 0) = PInf"
    by (simp add: signed_inf_def)
  have s0: "scale
       \<lparr>cx = D 0, cy = D 0, width = D 0, height = D 0, angle = D 0, clipped = True,
        viewport = \<lparr>vp_width = D 800, vp_height = D 800\<rparr>,
        svgClipRect = None, svgTransform = None\<rparr> = PInf"
    by (simp add: scale_def jmin_def signed_inf_def)
  have u0: "svgClipRect (update
       \<lparr>cx = D 0, cy = D 0, width = D 0, height = D 0, angle = D 0, clipped = True,
        viewport = \<lparr>vp_width = D 800, vp_height = D 800\<rparr>,
        svgClipRect = None, svgTransform = None\<rparr>)
       = Some \<lparr>rect_x = NaN, rect_y = NaN, rect_width = NaN, rect_height = NaN\<rparr>"
    by (simp add: update_def Let_def s0 jsub_def)
  show ?thesis
    by (intro conjI o5 ne i s0 u0) (simp_all only: s u o5 o8 o11 o15)
qed

text \<open>
  Claim C8, amended: for every camera the scale is
  \<open>min(viewport.width / width, viewport.height / height)\<close>; when the two ratios are equal
  (as \<^verbatim>\<open>==\<close> has it) the scale is that ratio; \<^verbatim>\<open>update\<close> writes the clipping rectangle of
  size \<open>(width * scale, height * scale)\<close>, centred in the viewport, when the camera is
  clipped, and the viewport otherwise. When the ratios are equal, the four numbers are
  finite, \<open>width\<close> and \<open>height\<close> are not zero and the exact quotients
  \<open>viewport.width / width\<close> and \<open>viewport.height / height\<close> are doubles, the frame is the
  viewport exactly: \<open>width * scale = viewport.width\<close>, \<open>height * scale = viewport.height\<close>,
  and the rectangle written is \<open>(0, 0, viewport.width, viewport.height)\<close>.
\<close>

theorem scale_fit:
  "scale this = jmin (jdiv (vp_width (viewport this)) (width this))
                     (jdiv (vp_height (viewport this)) (height this))
   \<and> (jeq (jdiv (vp_width (viewport this)) (width this))
           (jdiv (vp_height (viewport this)) (height this)) \<longrightarrow>
        scale this = jdiv (vp_width (viewport this)) (width this)
        \<and> scale this = jdiv (vp_height (viewport this)) (height this))
   \<and> svgClipRect (update this)
       = Some \<lparr>rect_x = (if clipped this
                        then jdiv (jsub (vp_width (viewport this))
                                        (jmul (width this) (scale this))) (D 2)
                        else D 0),
               rect_y = (if clipped this
                        then jdiv (jsub (vp_height (viewport this))
                                        (jmul (height this) (scale this))) (D 2)
                        else D 0),
               rect_width = (if clipped this then jmul (width this) (scale this)
                             else vp_width (viewport this)),
               rect_height = (if clipped this then jmul (height this) (scale this)
                              else vp_height (viewport this))\<rparr>
   \<and> (jeq (jdiv (vp_width (viewport this)) (width this))
           (jdiv (vp_height (viewport this)) (height this))
        \<and> width this = Fin w \<and> height this = Fin h
        \<and> vp_width (viewport this) = Fin vw \<and> vp_height (viewport this) = Fin vh
        \<and> val w \<noteq> 0 \<and> val h \<noteq> 0
        \<and> is_double (val vw / val w) \<and> is_double (val vh / val h) \<longrightarrow>
        jmul (width this) (scale this) = vp_width (viewport this)
        \<and> jmul (height this) (scale this) = vp_height (viewport this)
        \<and> svgClipRect (update this)
            = Some \<lparr>rect_x = D 0, rect_y = D 0,
                    rect_width = vp_width (viewport this),
                    rect_height = vp_height (viewport this)\<rparr>)"
proof -
  have 1: "scale this = jmin (jdiv (vp_width (viewport this)) (width this))
                     (jdiv (vp_height (viewport this)) (height this))"
    by (simp add: scale_def)
  have 2: "scale this = jdiv (vp_width (viewport this)) (width this)
        \<and> scale this = jdiv (vp_height (viewport this)) (height this)"
    if e: "jeq (jdiv (vp_width (viewport this)) (width this))
           (jdiv (vp_height (viewport this)) (height this))"
  proof -
    have "scale this = jdiv (vp_width (viewport this)) (width this)"
      using e by (simp add: scale_def jmin_same)
    then show ?thesis using e by (simp add: jeq_def)
  qed
  have 3: "jmul (width this) (scale this) = vp_width (viewport this)
        \<and> jmul (height this) (scale this) = vp_height (viewport this)
        \<and> svgClipRect (update this)
            = Some \<lparr>rect_x = D 0, rect_y = D 0,
                    rect_width = vp_width (viewport this),
                    rect_height = vp_height (viewport this)\<rparr>"
    if e: "jeq (jdiv (vp_width (viewport this)) (width this))
           (jdiv (vp_height (viewport this)) (height this))"
      and f: "width this = Fin w" "height this = Fin h"
        "vp_width (viewport this) = Fin vw" "vp_height (viewport this) = Fin vh"
      and n: "val w \<noteq> 0" "val h \<noteq> 0"
      and d: "is_double (val vw / val w)" "is_double (val vh / val h)"
  proof -
    have s: "scale this = jdiv (Fin vw) (Fin w)"
      using 2 [OF e, THEN conjunct1] by (simp only: f)
    have s': "scale this = jdiv (Fin vh) (Fin h)"
      using 2 [OF e, THEN conjunct2] by (simp only: f)
    have a: "jmul (width this) (scale this) = vp_width (viewport this)"
      by (simp only: s f exact_ratio [OF n(1) d(1)])
    have b: "jmul (height this) (scale this) = vp_height (viewport this)"
      by (simp only: s' f exact_ratio [OF n(2) d(2)])
    have "svgClipRect (update this)
            = Some \<lparr>rect_x = D 0, rect_y = D 0,
                    rect_width = vp_width (viewport this),
                    rect_height = vp_height (viewport this)\<rparr>"
      unfolding update_rect a b by (simp add: f)
    then show ?thesis using a b by simp
  qed
  show ?thesis
    using 1 2 3 update_rect [of this] by blast
qed

text \<open>
  Claim C8, an instance: a camera \<open>200 x 100\<close> in a viewport \<open>800 x 400\<close>. Both ratios are
  \<open>4\<close>, the scale is \<open>4\<close>, and \<^verbatim>\<open>update\<close> writes the rectangle \<open>(0, 0, 800, 400)\<close>.
\<close>

theorem scale_fit_witness:
  "jdiv (D 800) (D 200) = D 4 \<and> jdiv (D 400) (D 100) = D 4
   \<and> scale \<lparr>cx = D 400, cy = D 200, width = D 200, height = D 100, angle = D 0, clipped = True,
          viewport = \<lparr>vp_width = D 800, vp_height = D 400\<rparr>,
          svgClipRect = None, svgTransform = None\<rparr> = D 4
   \<and> svgClipRect (update
         \<lparr>cx = D 400, cy = D 200, width = D 200, height = D 100, angle = D 0, clipped = True,
          viewport = \<lparr>vp_width = D 800, vp_height = D 400\<rparr>,
          svgClipRect = None, svgTransform = None\<rparr>)
       = Some \<lparr>rect_x = D 0, rect_y = D 0, rect_width = D 800, rect_height = D 400\<rparr>"
proof -
  let ?c = "\<lparr>cx = D 400, cy = D 200, width = D 200, height = D 100, angle = D 0,
          clipped = True, viewport = \<lparr>vp_width = D 800, vp_height = D 400\<rparr>,
          svgClipRect = None, svgTransform = None\<rparr>"
  note t = scale_fit [where w = "dbl 200" and h = "dbl 100" and vw = "dbl 800"
      and vh = "dbl 400" and this = ?c]
  have q: "jdiv (D 800) (D 200) = D 4" "jdiv (D 400) (D 100) = D 4" by simp_all
  have e: "jeq (jdiv (vp_width (viewport ?c)) (width ?c))
               (jdiv (vp_height (viewport ?c)) (height ?c))"
    by (simp add: jeq_def)
  have s: "scale ?c = D 4"
    using t [THEN conjunct2, THEN conjunct1, THEN mp, OF e] by simp
  have "jeq (jdiv (vp_width (viewport ?c)) (width ?c))
            (jdiv (vp_height (viewport ?c)) (height ?c))
        \<and> width ?c = D 200 \<and> height ?c = D 100
        \<and> vp_width (viewport ?c) = D 800 \<and> vp_height (viewport ?c) = D 400
        \<and> val (dbl 200) \<noteq> 0 \<and> val (dbl 100) \<noteq> 0
        \<and> is_double (val (dbl 800) / val (dbl 200))
        \<and> is_double (val (dbl 400) / val (dbl 100))"
    using e by simp
  from t [THEN conjunct2, THEN conjunct2, THEN conjunct2, THEN mp, OF this]
  have "svgClipRect (update ?c)
       = Some \<lparr>rect_x = D 0, rect_y = D 0, rect_width = D 800, rect_height = D 400\<rparr>"
    by simp
  then show ?thesis using q s by simp
qed

lemma jdiv_NaN_right [simp]: "jdiv a NaN = NaN"
  by (cases a) simp_all

lemma jgt_0_iff: "jgt x (D 0) \<longleftrightarrow> \<not> not_positive x"
  by (cases x) (simp_all add: jgt_def not_positive_def not_le)

lemma zoom_size [simp]:
  "width (zoom rt factor x y this) = jdiv (width this) factor"
  "height (zoom rt factor x y this) = jdiv (height this) factor"
  by (simp_all add: zoom_def Let_def)

lemma jdiv_negative:
  assumes "jgt u (D 0)" and "val f < 0"
  shows "\<not> jgt (jdiv u (Fin f)) (D 0)"
proof (cases u)
  case (Fin w)
  then have "0 < val w" using assms(1) by (simp add: jgt_def)
  then have "val w / val f \<le> 0" using assms(2) by (simp add: divide_le_0_iff)
  then have "not_positive (rnd (val w / val f))" by (rule rnd_not_positive)
  then show ?thesis using Fin assms(2) by (simp add: jgt_0_iff)
qed (use assms in \<open>simp_all add: jgt_def signed_inf_def\<close>)

lemma jdiv_positive:
  assumes "0 < val f" and "2 powi (- 1074) \<le> val w / val f"
  shows "jgt (jdiv (Fin w) (Fin f)) (D 0)"
proof -
  have p: "0 < rnd_fin (val w / val f)" by (rule rnd_fin_pos [OF assms(2)])
  have j: "jdiv (Fin w) (Fin f) = rnd (val w / val f)" using assms(1) by simp
  have "jgt (rnd (val w / val f)) (D 0)"
  proof (cases "val w / val f" rule: rnd_cases)
    case (fin y)
    then show ?thesis using p by (simp add: jgt_def)
  next
    case pinf
    then show ?thesis by (simp add: jgt_def)
  next
    case ninf
    then show ?thesis using p rnd_fin_nonpos [of "val w / val f"] by simp
  qed
  then show ?thesis by (simp only: j)
qed

lemma jdiv_NaN_left: "jdiv NaN b = NaN"
  by simp

lemma jmul_NaN_left: "jmul NaN b = NaN"
  by simp

lemma jadd_NaN_left: "jadd NaN b = NaN"
  by simp

lemma negative_zoom_width:
  "rnd (- (1 / 5)) = D (- (3602879701896397 / 2 ^ 54))
   \<and> quadratic progress (D (- (3602879701896397 / 2 ^ 54))) (D 100) (D 200) = NaN
   \<and> truthy (D (- (3602879701896397 / 2 ^ 54)))"
proof -
  have r1: "rnd (- (1 / 5)) = D (- (3602879701896397 / 2 ^ 54))"
    by (rule rnd_eval(1) [where e = "-55" and n = "-7205759403792794"]; simp)
  have d2: "is_double (- (3602879701896397 / 2 ^ 54))"
    by (rule is_doubleI [of "-7205759403792794" "-55"]) simp_all
  have d3: "is_double 1"
    by (rule is_doubleI [of "4503599627370496" "-52"]) simp_all
  have r4: "rnd (1 - (- (3602879701896397 / 2 ^ 54))) = D (5404319552844595 / 2 ^ 52)"
    by (rule rnd_eval(1) [where e = "-52" and n = "5404319552844595"]; simp)
  have d5: "is_double (5404319552844595 / 2 ^ 52)"
    by (rule is_doubleI [of "5404319552844595" "-52"]) simp_all
  have o6: "jsub (D 1) (D (- (3602879701896397 / 2 ^ 54))) = D (5404319552844595 / 2 ^ 52)"
    by (rule jsub_eval [OF d3 d2 r4])
  have d7: "is_double 100"
    by (rule is_doubleI [of "7036874417766400" "-46"]) simp_all
  have r8: "rnd (100 * (5404319552844595 / 2 ^ 52)) = D 120"
    by (rule rnd_eval(1) [where e = "-46" and n = "8444249301319680"]; simp)
  have d9: "is_double 120"
    by (rule is_doubleI [of "8444249301319680" "-46"]) simp_all
  have o10: "jmul (D 100) (D (5404319552844595 / 2 ^ 52)) = D 120"
    by (rule jmul_eval [OF d7 d5 r8])
  have r11: "rnd (100 - 120) = D (- 20)"
    by (rule rnd_eval(1) [where e = "-48" and n = "-5629499534213120"]; simp)
  have d12: "is_double (- 20)"
    by (rule is_doubleI [of "-5629499534213120" "-48"]) simp_all
  have o13: "jsub (D 100) (D 120) = D (- 20)"
    by (rule jsub_eval [OF d7 d9 r11])
  have d14: "is_double 200"
    by (rule is_doubleI [of "7036874417766400" "-45"]) simp_all
  have r15: "rnd (200 - 120) = D 80"
    by (rule rnd_eval(1) [where e = "-46" and n = "5629499534213120"]; simp)
  have d16: "is_double 80"
    by (rule is_doubleI [of "5629499534213120" "-46"]) simp_all
  have o17: "jsub (D 200) (D 120) = D 80"
    by (rule jsub_eval [OF d14 d9 r15])
  have r18: "rnd ((- 20) / 80) = D (- (1 / 2 ^ 2))"
    by (rule rnd_eval(1) [where e = "-54" and n = "-4503599627370496"]; simp)
  have d19: "is_double (- (1 / 2 ^ 2))"
    by (rule is_doubleI [of "-4503599627370496" "-54"]) simp_all
  have o20: "jdiv (D (- 20)) (D 80) = D (- (1 / 2 ^ 2))"
    by (rule jdiv_eval [OF d12 d16 r18]) simp
  have gt: "\<not> jgt (D (- (3602879701896397 / 2 ^ 54))) (D 0)" using d2 by (simp add: jgt_def)
  have mn: "jmin (D 100) (D 200) = D 100" by (simp add: jmin_def)
  have um: "quadratic_um (D (- (3602879701896397 / 2 ^ 54))) (D 100) (D 200) = D 120"
    by (simp only: quadratic_um_def gt if_False mn o6 o10)
  have s: "jsqrt (D (- (1 / 2 ^ 2))) = NaN" using d19 by simp
  have tm: "quadratic_tm (D (- (3602879701896397 / 2 ^ 54))) (D 100) (D 200) = NaN"
    by (simp only: quadratic_tm_def Let_def um o13 o17 o20 s jdiv_NaN_left)
  have k: "quadratic_k (D (- (3602879701896397 / 2 ^ 54))) (D 100) (D 200) = NaN"
    by (simp only: quadratic_k_def Let_def tm jadd_NaN_right jdiv_NaN_right)
  have v: "quadratic progress (D (- (3602879701896397 / 2 ^ 54))) (D 100) (D 200) = NaN"
    by (simp only: quadratic_def Let_def k jmul_NaN_left jadd_NaN_left)
  have t: "truthy (D (- (3602879701896397 / 2 ^ 54)))" using d2 by (simp add: truthy_def dbl_inject)
  show ?thesis using r1 v t by blast
qed

subsection \<open>Positive width and height\<close>




end
